(* ===== verification/Prelude.thy ===== *)
theory Prelude
  imports Main
begin

text \<open>
  Shared vocabulary of the development: the JavaScript character classes the
  regular expressions of the repository use (\<open>\s\<close>, \<open>\d\<close>, \<open>\w\<close>, line
  terminators, case folding), the string built-ins \<open>trim\<close> and
  \<open>substring\<close>, JavaScript truthiness of an optional string (\<open>||\<close> and
  \<open>if (x)\<close>), and the generic list lemmas the component theories share.
  JavaScript strings are modelled as \<^typ>\<open>string\<close>, one \<^typ>\<open>char\<close> per code
  unit; \<^typ>\<open>char\<close> holds the code units 0--255 (ASCII and Latin-1), which is
  the alphabet of the OCR engine's output after its A--Z, 0--9 whitelist and of
  every literal in the source.
\<close>

named_theorems char_class_simps "unfolding rules for the character predicates"

subsection \<open>Character classes of the ECMAScript RegExp grammar\<close>

text \<open>\<open>\s\<close> and \<open>String.prototype.trim\<close>: WhiteSpace and LineTerminator,
  restricted to the 8-bit code units: TAB, LF, VT, FF, CR, SPACE, NBSP.\<close>

definition is_js_space :: "char \<Rightarrow> bool" where
  [char_class_simps]: "is_js_space c \<longleftrightarrow> of_char c \<in> ({9, 10, 11, 12, 13, 32, 160} :: nat set)"

text \<open>LineTerminator (what \<open>.\<close> does not match): LF and CR.\<close>

definition is_line_terminator :: "char \<Rightarrow> bool" where
  [char_class_simps]: "is_line_terminator c \<longleftrightarrow> of_char c \<in> ({10, 13} :: nat set)"

definition is_digit :: "char \<Rightarrow> bool" where
  [char_class_simps]: "is_digit c \<longleftrightarrow> (48::nat) \<le> of_char c \<and> (of_char c :: nat) \<le> 57"

definition is_upper :: "char \<Rightarrow> bool" where
  [char_class_simps]: "is_upper c \<longleftrightarrow> (65::nat) \<le> of_char c \<and> (of_char c :: nat) \<le> 90"

definition is_lower :: "char \<Rightarrow> bool" where
  [char_class_simps]: "is_lower c \<longleftrightarrow> (97::nat) \<le> of_char c \<and> (of_char c :: nat) \<le> 122"

text \<open>\<open>\w\<close>: the WordCharacters of a non-unicode pattern, \<open>[A-Za-z0-9_]\<close>.\<close>

definition is_word_char :: "char \<Rightarrow> bool" where
  [char_class_simps]: "is_word_char c \<longleftrightarrow> is_upper c \<or> is_lower c \<or> is_digit c \<or> c = CHR ''_''"

text \<open>
  Canonicalize of a non-unicode, case-insensitive pattern maps a code unit to its
  \<open>toUpperCase\<close> when that is a single code unit and does not map a non-ASCII
  unit into ASCII. On 0--255 that is a--z and the Latin-1 lower-case letters
  (but \<open>\<div>\<close>, \<open>\<ss>\<close> and \<open>\<yacute>\<close>'s neighbour 0xFF, whose upper case lies outside 0--255
  and so is equal to no other unit's).\<close>

definition is_latin_lower :: "char \<Rightarrow> bool" where
  "is_latin_lower c \<longleftrightarrow> is_lower c \<or> ((224::nat) \<le> of_char c \<and> (of_char c :: nat) \<le> 254 \<and> (of_char c :: nat) \<noteq> 247)"

definition is_latin_upper :: "char \<Rightarrow> bool" where
  "is_latin_upper c \<longleftrightarrow> is_upper c \<or> ((192::nat) \<le> of_char c \<and> (of_char c :: nat) \<le> 222 \<and> (of_char c :: nat) \<noteq> 215)"

definition canon :: "char \<Rightarrow> char" where
  "canon c = (if is_latin_lower c then char_of (of_char c - (32::nat)) else c)"

definition to_lower :: "char \<Rightarrow> char" where
  "to_lower c = (if is_latin_upper c then char_of (of_char c + (32::nat)) else c)"

subsection \<open>String built-ins\<close>

text \<open>\<open>String.prototype.trim\<close>.\<close>

definition js_trim :: "string \<Rightarrow> string" where
  "js_trim s = rev (dropWhile is_js_space (rev (dropWhile is_js_space s)))"

text \<open>\<open>s.substring(a, b)\<close> for \<open>a \<le> b\<close>.\<close>

definition substr :: "string \<Rightarrow> nat \<Rightarrow> nat \<Rightarrow> string" where
  "substr s a b = take (b - a) (drop a s)"

subsection \<open>Truthiness of optional strings\<close>

text \<open>\<^const>\<open>None\<close> is \<open>null\<close> (or \<open>undefined\<close>); the empty string is falsy too.\<close>

definition js_truthy :: "string option \<Rightarrow> bool" where
  "js_truthy v \<longleftrightarrow> (case v of None \<Rightarrow> False | Some x \<Rightarrow> x \<noteq> [])"

text \<open>\<open>a || b\<close>: \<open>a\<close> when it is truthy, otherwise \<open>b\<close>.\<close>

definition js_or :: "string option \<Rightarrow> string option \<Rightarrow> string option" where
  "js_or a b = (if js_truthy a then a else b)"

subsection \<open>First success of a list of alternatives\<close>

fun first_some :: "'a option list \<Rightarrow> 'a option" where
  "first_some [] = None"
| "first_some (x # xs) = (case x of None \<Rightarrow> first_some xs | Some y \<Rightarrow> Some y)"

lemma first_some_append [simp]:
  "first_some (xs @ ys) = (case first_some xs of None \<Rightarrow> first_some ys | Some y \<Rightarrow> Some y)"
  by (induction xs) (auto split: option.splits)

lemma first_some_single [simp]: "first_some [x] = x"
  by (cases x) auto

lemma first_some_None_iff: "first_some xs = None \<longleftrightarrow> (\<forall>x \<in> set xs. x = None)"
  by (induction xs) (auto split: option.splits)

lemma first_some_Some_in: "first_some xs = Some y \<Longrightarrow> Some y \<in> set xs"
  by (induction xs) (auto split: option.splits)

lemma first_some_greedy:
  "(\<And>i. i < n \<Longrightarrow> f i = None) \<Longrightarrow> first_some (map f (rev [0..<Suc n])) = f n"
  by (cases "f n") (simp_all add: first_some_None_iff)

lemma first_some_all_Some:
  "xs \<noteq> [] \<Longrightarrow> (\<And>x. x \<in> set xs \<Longrightarrow> x \<noteq> None) \<Longrightarrow> first_some xs = hd xs"
  by (cases xs) (auto split: option.split)

subsection \<open>Lemmas shared by the components\<close>

lemma all_from_Suc:
  "(\<forall>j. i \<le> j \<and> j < p \<longrightarrow> P j) \<longleftrightarrow> (i < p \<longrightarrow> P i) \<and> (\<forall>j. Suc i \<le> j \<and> j < p \<longrightarrow> P j)"
  by (metis Suc_leD Suc_le_eq le_antisym not_less_eq_eq)
lemma all_from_Suc_le:
  "(\<forall>j. i \<le> j \<and> j \<le> p \<longrightarrow> P j) \<longleftrightarrow> (i \<le> p \<longrightarrow> P i) \<and> (\<forall>j. Suc i \<le> j \<and> j \<le> p \<longrightarrow> P j)"
  by (metis Suc_leD Suc_le_eq le_antisym not_less_eq_eq)

lemma js_truthy_Some [simp]: "js_truthy (Some x) \<longleftrightarrow> x \<noteq> []"
  by (simp add: js_truthy_def)

lemma js_truthy_None [simp]: "\<not> js_truthy None"
  by (simp add: js_truthy_def)

lemma apfst_eq: "apfst f p = (f (fst p), snd p)"
  by (cases p) simp

end
