(* ===== verification/RegExp.thy ===== *)
theory RegExp
  imports Prelude
begin

text \<open>
  The ECMAScript regular-expression engine the extractors run on
  (ECMA-262, section RegExp: Pattern semantics), as far as the patterns of the
  repository use it. A pattern is a \<open>regex\<close> value, built from the literal
  in the source; its semantics is the specification's matcher: a function from a
  continuation and a match state (end index, captures) to a match result,
  backtracking by trying the continuation and falling back on failure. The
  repeat loop (\<open>RepeatMatcher\<close>) recurses through the continuation it hands to
  the repeated atom, which is not a structural recursion; it carries a fuel bound
  (the repetitions still allowed by the remaining input) and the lemmas of this
  theory show that the bound never cuts a run short. \<open>exec_from\<close> is
  \<open>RegExpBuiltinExec\<close>'s scan over start indices, \<open>js_match\<close> is
  \<open>String.prototype.match\<close> with a non-global pattern and \<open>js_replace_all\<close>
  is \<open>String.prototype.replace\<close> with a global pattern and a plain
  replacement string.
\<close>

subsection \<open>Patterns\<close>

datatype class_atom =
    CChar char            \<comment> \<open>a single character \<open>a\<close>\<close>
  | CRange char char      \<comment> \<open>\<open>a-z\<close>\<close>
  | CDigit                \<comment> \<open>\<open>\d\<close>\<close>
  | CWord                 \<comment> \<open>\<open>\w\<close>\<close>
  | CSpace                \<comment> \<open>\<open>\s\<close>\<close>

datatype regex =
    RChar char                          \<comment> \<open>a pattern character\<close>
  | RDot                                \<comment> \<open>\<open>.\<close>\<close>
  | RClass bool "class_atom list"       \<comment> \<open>\<open>[...]\<close>, \<open>[^...]\<close> when the flag is set\<close>
  | RWordB                              \<comment> \<open>\<open>\b\<close>\<close>
  | RSeq regex regex                    \<comment> \<open>concatenation\<close>
  | RAlt regex regex                    \<comment> \<open>\<open>|\<close>\<close>
  | RGroup nat regex                    \<comment> \<open>capturing group with its number\<close>
  | RRep bool nat "nat option" regex    \<comment> \<open>quantifier: greedy, min, max (None: \<open>\<infinity>\<close>)\<close>
  | REmpty                              \<comment> \<open>the empty alternative\<close>

primrec atom_mem :: "class_atom \<Rightarrow> char \<Rightarrow> bool" where
  "atom_mem (CChar a) c = (c = a)"
| "atom_mem (CRange a b) c = ((of_char a :: nat) \<le> of_char c \<and> (of_char c :: nat) \<le> of_char b)"
| "atom_mem CDigit c = is_digit c"
| "atom_mem CWord c = is_word_char c"
| "atom_mem CSpace c = is_js_space c"

definition class_mem :: "class_atom list \<Rightarrow> char \<Rightarrow> bool" where
  "class_mem as c \<longleftrightarrow> (\<exists>a \<in> set as. atom_mem a c)"

text \<open>Canonicalize, the identity unless the pattern has the \<open>i\<close> flag.\<close>

definition canonicalize :: "bool \<Rightarrow> char \<Rightarrow> char" where
  "canonicalize ic c = (if ic then canon c else c)"

text \<open>
  CharacterSetMatcher's test "some member of the set canonicalizes to the
  canonical form of the input character": the members that canonicalize alike
  are the character, its upper and its lower case.\<close>

definition class_found :: "bool \<Rightarrow> class_atom list \<Rightarrow> char \<Rightarrow> bool" where
  "class_found ic as c \<longleftrightarrow>
     (if ic then class_mem as c \<or> class_mem as (canon c) \<or> class_mem as (to_lower c)
      else class_mem as c)"

subsection \<open>Matcher\<close>

type_synonym captures = "nat \<Rightarrow> (nat \<times> nat) option"
type_synonym mstate = "nat \<times> captures"
type_synonym cont = "mstate \<Rightarrow> mstate option"
type_synonym matcher = "cont \<Rightarrow> mstate \<Rightarrow> mstate option"

text \<open>CharacterSetMatcher: one character satisfying the test, then the continuation.\<close>

definition char_matcher :: "string \<Rightarrow> (char \<Rightarrow> bool) \<Rightarrow> matcher" where
  "char_matcher s P k x =
     (if fst x < length s \<and> P (s ! fst x) then k (Suc (fst x), snd x) else None)"

text \<open>IsWordChar at \<open>e - 1\<close> and at \<open>e\<close>, the two sides of \<open>\b\<close>.\<close>

definition word_before :: "string \<Rightarrow> nat \<Rightarrow> bool" where
  "word_before s e \<longleftrightarrow> 0 < e \<and> e \<le> length s \<and> is_word_char (s ! (e - 1))"

definition word_at :: "string \<Rightarrow> nat \<Rightarrow> bool" where
  "word_at s e \<longleftrightarrow> e < length s \<and> is_word_char (s ! e)"

text \<open>The numbers of the groups inside a pattern: RepeatMatcher resets them on
  every iteration.\<close>

primrec groups :: "regex \<Rightarrow> nat list" where
  "groups (RChar c) = []"
| "groups RDot = []"
| "groups (RClass b as) = []"
| "groups RWordB = []"
| "groups (RSeq r1 r2) = groups r1 @ groups r2"
| "groups (RAlt r1 r2) = groups r1 @ groups r2"
| "groups (RGroup n r) = n # groups r"
| "groups (RRep g mn mx r) = groups r"
| "groups REmpty = []"

definition clear_caps :: "nat list \<Rightarrow> captures \<Rightarrow> captures" where
  "clear_caps gs cap = (\<lambda>i. if i \<in> set gs then None else cap i)"

text \<open>
  RepeatMatcher(m, min, max, greedy, x, c): with fuel. The continuation \<open>d\<close>
  handed to the atom's matcher fails on an empty iteration once \<open>min\<close> is
  reached, which is the specification's guard against infinite loops.\<close>

primrec rep_loop ::
  "nat \<Rightarrow> matcher \<Rightarrow> nat list \<Rightarrow> bool \<Rightarrow> nat \<Rightarrow> nat option \<Rightarrow> matcher" where
  "rep_loop 0 mr gs g mn mx k x = None"
| "rep_loop (Suc f) mr gs g mn mx k x =
     (if mx = Some 0 then k x
      else
        (let d = (\<lambda>y. if mn = 0 \<and> fst y = fst x then None
                      else rep_loop f mr gs g (mn - 1) (map_option (\<lambda>j. j - 1) mx) k y);
             xr = (fst x, clear_caps gs (snd x))
         in if mn \<noteq> 0 then mr d xr
            else if \<not> g then (case k x of None \<Rightarrow> mr d xr | Some z \<Rightarrow> Some z)
            else (case mr d xr of None \<Rightarrow> k x | Some z \<Rightarrow> Some z)))"

text \<open>Every iteration after the first \<open>min\<close> consumes a character, so
  \<open>min\<close> plus the characters left, plus one for the final call, bounds the loop.\<close>

definition rep_fuel :: "string \<Rightarrow> nat \<Rightarrow> mstate \<Rightarrow> nat" where
  "rep_fuel s mn x = Suc (mn + (length s - fst x))"

primrec m :: "bool \<Rightarrow> string \<Rightarrow> regex \<Rightarrow> matcher" where
  "m ic s (RChar ch) k x = char_matcher s (\<lambda>c. canonicalize ic c = canonicalize ic ch) k x"
| "m ic s RDot k x = char_matcher s (\<lambda>c. \<not> is_line_terminator c) k x"
| "m ic s (RClass neg as) k x = char_matcher s (\<lambda>c. class_found ic as c \<noteq> neg) k x"
| "m ic s RWordB k x = (if word_before s (fst x) \<noteq> word_at s (fst x) then k x else None)"
| "m ic s (RSeq r1 r2) k x = m ic s r1 (\<lambda>y. m ic s r2 k y) x"
| "m ic s (RAlt r1 r2) k x = (case m ic s r1 k x of None \<Rightarrow> m ic s r2 k x | Some z \<Rightarrow> Some z)"
| "m ic s (RGroup n r) k x = m ic s r (\<lambda>y. k (fst y, (snd y)(n := Some (fst x, fst y)))) x"
| "m ic s (RRep g mn mx r) k x =
     rep_loop (rep_fuel s mn x) (\<lambda>k' x'. m ic s r k' x') (groups r) g mn mx k x"
| "m ic s REmpty k x = k x"

subsection \<open>Writing pattern literals\<close>

text \<open>A run of pattern characters, and a concatenation of terms, as the
  pattern grammar's Alternative.\<close>

fun lit :: "string \<Rightarrow> regex" where
  "lit [] = REmpty"
| "lit [c] = RChar c"
| "lit (c # cs) = RSeq (RChar c) (lit cs)"

fun seqs :: "regex list \<Rightarrow> regex" where
  "seqs [] = REmpty"
| "seqs [r] = r"
| "seqs (r # rs) = RSeq r (seqs rs)"

abbreviation star :: "regex \<Rightarrow> regex" where "star r \<equiv> RRep True 0 None r"
abbreviation plus :: "regex \<Rightarrow> regex" where "plus r \<equiv> RRep True 1 None r"
abbreviation opt :: "regex \<Rightarrow> regex" where "opt r \<equiv> RRep True 0 (Some 1) r"
abbreviation lazy_star :: "regex \<Rightarrow> regex" where "lazy_star r \<equiv> RRep False 0 None r"
abbreviation count :: "nat \<Rightarrow> regex \<Rightarrow> regex" where "count n r \<equiv> RRep True n (Some n) r"

abbreviation cls :: "class_atom list \<Rightarrow> regex" where "cls as \<equiv> RClass False as"
abbreviation ncls :: "class_atom list \<Rightarrow> regex" where "ncls as \<equiv> RClass True as"

subsection \<open>Matchers move forward\<close>

text \<open>
  A matcher succeeds only through its continuation, at a state whose end index
  lies between the start and the end of the input (or the start, when that is
  already past the end). This is what makes the scan and the replace loop below
  terminate.\<close>

definition reaches :: "string \<Rightarrow> mstate \<Rightarrow> cont \<Rightarrow> mstate \<Rightarrow> bool" where
  "reaches s x k z \<longleftrightarrow>
     (\<exists>y. fst x \<le> fst y \<and> fst y \<le> max (fst x) (length s) \<and> k y = Some z)"

definition forward :: "string \<Rightarrow> matcher \<Rightarrow> bool" where
  "forward s M \<longleftrightarrow> (\<forall>k x z. M k x = Some z \<longrightarrow> reaches s x k z)"

lemma reaches_here: "k x = Some z \<Longrightarrow> reaches s x k z"
  unfolding reaches_def by (intro exI [of _ x]) simp

lemma reaches_step: "fst x < length s \<Longrightarrow> k (Suc (fst x), c) = Some z \<Longrightarrow> reaches s x k z"
  unfolding reaches_def by (intro exI [of _ "(Suc (fst x), c)"]) simp

lemma reaches_trans:
  assumes "reaches s x k' z"
    and "\<And>y. fst x \<le> fst y \<Longrightarrow> k' y = Some z \<Longrightarrow> reaches s y k z"
  shows "reaches s x k z"
proof -
  obtain y where y: "fst x \<le> fst y" "fst y \<le> max (fst x) (length s)" "k' y = Some z"
    using assms(1) unfolding reaches_def by blast
  then obtain y' where "fst y \<le> fst y'" "fst y' \<le> max (fst y) (length s)" "k y' = Some z"
    using assms(2) unfolding reaches_def by blast
  with y show ?thesis unfolding reaches_def by (intro exI [of _ y']) auto
qed

lemma forwardI: "(\<And>k x z. M k x = Some z \<Longrightarrow> reaches s x k z) \<Longrightarrow> forward s M"
  unfolding forward_def by blast

lemma forwardD: "forward s M \<Longrightarrow> M k x = Some z \<Longrightarrow> reaches s x k z"
  unfolding forward_def by blast

lemma forward_char_matcher: "forward s (char_matcher s P)"
  by (rule forwardI) (auto simp: char_matcher_def split: if_splits intro: reaches_step)

lemma forward_rep_loop:
  assumes "forward s mr"
  shows "forward s (rep_loop f mr gs g mn mx)"
proof (induction f arbitrary: mn mx)
  case 0
  show ?case by (rule forwardI) simp
next
  case (Suc f)
  show ?case
  proof (rule forwardI)
    fix k x z
    assume run: "rep_loop (Suc f) mr gs g mn mx k x = Some z"
    let ?xr = "(fst x, clear_caps gs (snd x))"
    let ?d = "\<lambda>y. if mn = 0 \<and> fst y = fst x then None
                 else rep_loop f mr gs g (mn - 1) (map_option (\<lambda>j. j - 1) mx) k y"
    have via_d: "reaches s x k z" if md: "mr ?d ?xr = Some z"
    proof -
      have "reaches s ?xr ?d z" using forwardD [OF assms md] .
      then have "reaches s x ?d z" by (simp add: reaches_def)
      then show ?thesis
      proof (rule reaches_trans)
        fix y
        assume "?d y = Some z"
        then have "rep_loop f mr gs g (mn - 1) (map_option (\<lambda>j. j - 1) mx) k y = Some z"
          by (simp split: if_splits)
        then show "reaches s y k z" by (rule forwardD [OF Suc.IH])
      qed
    qed
    show "reaches s x k z"
      using run via_d by (auto simp: Let_def split: if_splits option.splits intro: reaches_here)
  qed
qed

lemma forward_m: "forward s (m ic s r)"
proof (induction r)
  case (RChar ch)
  have "m ic s (RChar ch) = char_matcher s (\<lambda>c. canonicalize ic c = canonicalize ic ch)"
    by (intro ext) simp
  then show ?case by (simp only: forward_char_matcher)
next
  case RDot
  have "m ic s RDot = char_matcher s (\<lambda>c. \<not> is_line_terminator c)"
    by (intro ext) simp
  then show ?case by (simp only: forward_char_matcher)
next
  case (RClass neg as)
  have "m ic s (RClass neg as) = char_matcher s (\<lambda>c. class_found ic as c \<noteq> neg)"
    by (intro ext) simp
  then show ?case by (simp only: forward_char_matcher)
next
  case RWordB
  show ?case by (rule forwardI) (simp add: reaches_here split: if_splits)
next
  case (RSeq r1 r2)
  show ?case
  proof (rule forwardI)
    fix k x z
    assume "m ic s (RSeq r1 r2) k x = Some z"
    then have "reaches s x (\<lambda>y. m ic s r2 k y) z" using forwardD [OF RSeq.IH(1)] by simp
    then show "reaches s x k z"
      by (rule reaches_trans) (rule forwardD [OF RSeq.IH(2)])
  qed
next
  case (RAlt r1 r2)
  show ?case
  proof (rule forwardI)
    fix k x z
    assume alt: "m ic s (RAlt r1 r2) k x = Some z"
    show "reaches s x k z"
    proof (cases "m ic s r1 k x")
      case None
      with alt have "m ic s r2 k x = Some z" by simp
      then show ?thesis by (rule forwardD [OF RAlt.IH(2)])
    next
      case (Some z')
      with alt have "m ic s r1 k x = Some z" by simp
      then show ?thesis by (rule forwardD [OF RAlt.IH(1)])
    qed
  qed
next
  case (RGroup n r)
  show ?case
  proof (rule forwardI)
    fix k x z
    assume "m ic s (RGroup n r) k x = Some z"
    then have "reaches s x (\<lambda>y. k (fst y, (snd y)(n := Some (fst x, fst y)))) z"
      using forwardD [OF RGroup.IH] by simp
    then show "reaches s x k z"
    proof (rule reaches_trans)
      fix y
      assume "k (fst y, (snd y)(n := Some (fst x, fst y))) = Some z"
      then show "reaches s y k z"
        unfolding reaches_def by (intro exI [of _ "(fst y, (snd y)(n := Some (fst x, fst y)))"]) simp
    qed
  qed
next
  case (RRep g mn mx r)
  have "forward s (\<lambda>k' x'. m ic s r k' x')" using RRep.IH by simp
  then have fw: "\<And>f. forward s (rep_loop f (\<lambda>k' x'. m ic s r k' x') (groups r) g mn mx)"
    by (rule forward_rep_loop)
  show ?case
  proof (rule forwardI)
    fix k x z
    assume "m ic s (RRep g mn mx r) k x = Some z"
    then show "reaches s x k z" by (simp add: forwardD [OF fw])
  qed
next
  case REmpty
  show ?case by (rule forwardI) (simp add: reaches_here)
qed

subsection \<open>Execution\<close>

text \<open>RegExpBuiltinExec: try the matcher at \<open>i\<close>, \<open>i + 1\<close>, ... until it
  succeeds or \<open>i\<close> passes the end; the result is the start index and the final state.\<close>

function exec_from :: "bool \<Rightarrow> string \<Rightarrow> regex \<Rightarrow> nat \<Rightarrow> (nat \<times> mstate) option" where
  "exec_from ic s r i =
     (if length s < i then None
      else (case m ic s r Some (i, \<lambda>_. None) of
              Some y \<Rightarrow> Some (i, y)
            | None \<Rightarrow> exec_from ic s r (Suc i)))"
  by pat_completeness auto
termination
  by (relation "measure (\<lambda>(ic, s, r, i). Suc (length s) - i)") auto

declare exec_from.simps [simp del]

abbreviation no_caps :: captures where
  "no_caps \<equiv> \<lambda>_. None"

text \<open>The scan returns the leftmost start index at which the matcher succeeds.\<close>

lemma exec_from_Some_iff:
  "exec_from ic s r i = Some (p, y) \<longleftrightarrow>
     i \<le> p \<and> p \<le> length s \<and> m ic s r Some (p, no_caps) = Some y \<and>
     (\<forall>j. i \<le> j \<and> j < p \<longrightarrow> m ic s r Some (j, no_caps) = None)"
proof (induction ic s r i rule: exec_from.induct)
  case (1 ic s r i)
  show ?case
  proof (cases "length s < i")
    case True
    then show ?thesis by (simp add: exec_from.simps [of ic s r i])
  next
    case False
    show ?thesis
    proof (cases "m ic s r Some (i, no_caps)")
      case None
      then have "exec_from ic s r i = exec_from ic s r (Suc i)"
        using False by (simp add: exec_from.simps [of ic s r i])
      then have "exec_from ic s r i = Some (p, y) \<longleftrightarrow>
          Suc i \<le> p \<and> p \<le> length s \<and> m ic s r Some (p, no_caps) = Some y \<and>
          (\<forall>j. Suc i \<le> j \<and> j < p \<longrightarrow> m ic s r Some (j, no_caps) = None)"
        using "1.IH" False None by simp
      moreover have "Suc i \<le> p \<longleftrightarrow> i \<le> p" if "m ic s r Some (p, no_caps) = Some y"
        using None that by (cases "p = i") auto
      ultimately show ?thesis using None by (simp only: all_from_Suc [of i p]) auto
    next
      case (Some y')
      have "p = i" if "i \<le> p" "\<forall>j. i \<le> j \<and> j < p \<longrightarrow> m ic s r Some (j, no_caps) = None"
        using that Some by (metis le_neq_implies_less option.distinct(1) order_refl)
      then show ?thesis using False Some
        by (auto simp: exec_from.simps [of ic s r i])
    qed
  qed
qed

lemma exec_from_None_iff:
  "exec_from ic s r i = None \<longleftrightarrow>
     (\<forall>j. i \<le> j \<and> j \<le> length s \<longrightarrow> m ic s r Some (j, no_caps) = None)"
proof (induction ic s r i rule: exec_from.induct)
  case (1 ic s r i)
  show ?case
  proof (cases "length s < i")
    case True
    then show ?thesis by (auto simp: exec_from.simps [of ic s r i])
  next
    case False
    then show ?thesis
      using "1.IH" by (simp add: exec_from.simps [of ic s r i] all_from_Suc_le [of i] split: option.splits)
  qed
qed
lemma m_Some_end:
  "m ic s r Some x = Some y \<Longrightarrow> fst x \<le> fst y \<and> fst y \<le> max (fst x) (length s)"
  using forwardD [OF forward_m] unfolding reaches_def by fastforce

lemma exec_from_bounds:
  "exec_from ic s r i = Some (p, y) \<Longrightarrow> i \<le> p \<and> p \<le> fst y \<and> fst y \<le> length s"
  using m_Some_end [of ic s r "(p, no_caps)" y] by (auto simp: exec_from_Some_iff)

type_synonym match_result = "nat \<times> mstate"

text \<open>\<open>str.match(re)\<close> for a pattern without the \<open>g\<close> flag; \<open>ic\<close> is the \<open>i\<close> flag.\<close>

definition js_match :: "bool \<Rightarrow> regex \<Rightarrow> string \<Rightarrow> match_result option" where
  "js_match ic r s = exec_from ic s r 0"

text \<open>\<open>match[0]\<close> and \<open>match[n]\<close>.\<close>

definition match_text :: "string \<Rightarrow> match_result \<Rightarrow> string" where
  "match_text s res = substr s (fst res) (fst (snd res))"

definition group_text :: "string \<Rightarrow> match_result \<Rightarrow> nat \<Rightarrow> string option" where
  "group_text s res n = map_option (\<lambda>(a, b). substr s a b) (snd (snd res) n)"

text \<open>
  \<open>str.replace(re, rep)\<close> for a pattern with the \<open>g\<close> flag and a replacement
  without \<open>$\<close> patterns (RegExp.prototype[@@replace]): collect the matches from
  \<open>lastIndex\<close> 0, each search starting at the end of the previous match (one
  further after an empty match), and splice \<open>rep\<close> in place of each. \<open>li\<close> is
  \<open>lastIndex\<close>, \<open>nsp\<close> the specification's nextSourcePosition.\<close>

function replace_from :: "bool \<Rightarrow> string \<Rightarrow> regex \<Rightarrow> string \<Rightarrow> nat \<Rightarrow> nat \<Rightarrow> string" where
  "replace_from ic s r rep li nsp =
     (case exec_from ic s r li of
        None \<Rightarrow> drop nsp s
      | Some (p, y) \<Rightarrow>
          substr s nsp p @ rep @
          replace_from ic s r rep (if fst y = p then Suc p else fst y) (fst y))"
  by pat_completeness auto
termination
  by (relation "measure (\<lambda>(ic, s, r, rep, li, nsp). Suc (length s) - li)")
    (auto dest!: exec_from_bounds)

declare replace_from.simps [simp del]

definition js_replace_all :: "bool \<Rightarrow> regex \<Rightarrow> string \<Rightarrow> string \<Rightarrow> string" where
  "js_replace_all ic r rep s = replace_from ic s r rep 0 0"

end
