(* ===== verification/RegExp_Sem.thy ===== *)
theory RegExp_Sem
  imports RegExp
begin

text \<open>
  What a pattern means, independently of the backtracking order: \<open>rmatch\<close> is
  a relational semantics (the pattern can match the input from one match state
  to another, with the captures the groups record), \<open>reps\<close> its \<open>n\<close>-fold
  repetition with the per-iteration reset of the inner groups. The matcher of
  \<^theory_text>\<open>RegExp\<close> is sound for it: every state it hands to its continuation
  is one the pattern can reach (\<open>m_sound\<close>). The extractors' shape
  properties are proved by inverting this semantics; the derived rules of the
  first section compute the matcher on single-character atoms and literals,
  which is what the extractors' completeness properties need.
\<close>

subsection \<open>Derived matching rules\<close>

text \<open>
  The rules the extractor proofs use: a quantified single-character atom tries
  the repetition counts from \<open>max\<close> down to \<open>min\<close> (greedy) or up
  (lazy), bounded by the run of matching characters; a literal matches when the
  input spells it at the current index.\<close>

definition run_len :: "(char \<Rightarrow> bool) \<Rightarrow> string \<Rightarrow> nat \<Rightarrow> nat" where
  "run_len P s i = length (takeWhile P (drop i s))"

definition rep_hi :: "nat option \<Rightarrow> nat \<Rightarrow> nat" where
  "rep_hi mx n = (case mx of None \<Rightarrow> n | Some b \<Rightarrow> min b n)"

definition rep_order :: "bool \<Rightarrow> nat list \<Rightarrow> nat list" where
  "rep_order g xs = (if g then rev xs else xs)"

definition mn_le_mx :: "nat \<Rightarrow> nat option \<Rightarrow> bool" where
  "mn_le_mx mn mx \<longleftrightarrow> (case mx of None \<Rightarrow> True | Some b \<Rightarrow> mn \<le> b)"

lemma run_len_Suc:
  "i < length s \<Longrightarrow> P (s ! i) \<Longrightarrow> run_len P s i = Suc (run_len P s (Suc i))"
  by (simp add: run_len_def Cons_nth_drop_Suc [symmetric])

lemma run_len_zero: "\<not> (i < length s \<and> P (s ! i)) \<Longrightarrow> run_len P s i = 0"
  by (cases "i < length s") (auto simp: run_len_def Cons_nth_drop_Suc [symmetric])

lemma run_len_pos: "0 < run_len P s i \<longleftrightarrow> i < length s \<and> P (s ! i)"
  by (cases "i < length s \<and> P (s ! i)") (simp_all add: run_len_Suc run_len_zero)

lemma run_len_le: "run_len P s i \<le> length s - i"
  unfolding run_len_def by (metis length_drop length_takeWhile_le)

lemma run_len_nth: "j < run_len P s i \<Longrightarrow> i + j < length s \<and> P (s ! (i + j))"
proof -
  assume j: "j < run_len P s i"
  have "run_len P s i \<le> length s - i" by (rule run_len_le)
  with j have ij: "i + j < length s" by linarith
  from j have "takeWhile P (drop i s) ! j \<in> set (takeWhile P (drop i s))"
    unfolding run_len_def by (rule nth_mem)
  moreover from j ij have "takeWhile P (drop i s) ! j = s ! (i + j)"
    unfolding run_len_def by (simp add: takeWhile_nth)
  ultimately show ?thesis using ij by (auto dest: set_takeWhileD)
qed

lemma run_len_stop: "i + run_len P s i < length s \<Longrightarrow> \<not> P (s ! (i + run_len P s i))"
proof -
  assume a: "i + run_len P s i < length s"
  then have "length (takeWhile P (drop i s)) < length (drop i s)"
    by (simp add: run_len_def)
  then have "\<not> P (drop i s ! length (takeWhile P (drop i s)))"
    by (rule nth_length_takeWhile)
  moreover have "drop i s ! run_len P s i = s ! (i + run_len P s i)" using a by simp
  ultimately show ?thesis by (simp add: run_len_def)
qed

lemma clear_caps_Nil [simp]: "clear_caps [] c = c"
  by (simp add: clear_caps_def)

lemma map_shift_upt:
  "map (\<lambda>j. k (Suc (i + j), c)) [a..<b] = map (\<lambda>j. k (i + j, c)) [Suc a..<Suc b]"
  by (simp only: map_Suc_upt [symmetric] map_map o_def add_Suc_right)

lemma rep_loop_char:
  assumes "rep_hi mx (run_len P s i) < f" and "mn_le_mx mn mx"
  shows "rep_loop f (char_matcher s P) [] g mn mx k (i, c) =
    (if mn \<le> rep_hi mx (run_len P s i)
     then first_some (map (\<lambda>j. k (i + j, c)) (rep_order g [mn..<Suc (rep_hi mx (run_len P s i))]))
     else None)"
  using assms
proof (induction f arbitrary: i mn mx)
  case 0
  then show ?case by simp
next
  case (Suc f)
  let ?R = "run_len P s i"
  let ?hi = "rep_hi mx ?R"
  let ?mx' = "map_option (\<lambda>j. j - 1) mx"
  let ?rec = "rep_loop f (char_matcher s P) [] g (mn - 1) ?mx' k (Suc i, c)"
  let ?xs = "\<lambda>a b. map (\<lambda>j. k (i + j, c)) (rep_order g [a..<b])"
  show ?case
  proof (cases "mx = Some 0")
    case True
    with Suc.prems(2) show ?thesis
      by (simp add: mn_le_mx_def rep_hi_def rep_order_def split: option.splits)
  next
    case mx: False
    show ?thesis
    proof (cases "i < length s \<and> P (s ! i)")
      case False
      then have "?R = 0" by (rule run_len_zero)
      then have hi0: "?hi = 0" by (simp add: rep_hi_def split: option.splits)
      show ?thesis
        using mx False hi0 by (auto simp: char_matcher_def rep_order_def split: option.splits)
    next
      case adv: True
      then have R: "?R = Suc (run_len P s (Suc i))" by (simp add: run_len_Suc)
      have hi': "rep_hi ?mx' (run_len P s (Suc i)) = ?hi - 1" and hi1: "1 \<le> ?hi"
        using mx R by (auto simp: rep_hi_def split: option.splits)
      have "rep_hi ?mx' (run_len P s (Suc i)) < f" using Suc.prems(1) hi' hi1 by simp
      moreover have "mn_le_mx (mn - 1) ?mx'"
        using Suc.prems(2) by (auto simp: mn_le_mx_def split: option.splits)
      ultimately have rec: "?rec = (if mn - 1 \<le> ?hi - 1
          then first_some (map (\<lambda>j. k (Suc i + j, c)) (rep_order g [mn - 1..<Suc (?hi - 1)]))
          else None)"
        using Suc.IH hi' by simp
      have shift: "map (\<lambda>j. k (Suc i + j, c)) (rep_order g [a..<Suc (?hi - 1)]) = ?xs (Suc a) (Suc ?hi)"
        for a
        using hi1 by (simp add: rep_order_def rev_map [symmetric] map_shift_upt del: upt_Suc)
      have step: "char_matcher s P d (i, c) = d (Suc i, c)" for d
        using adv by (simp add: char_matcher_def)
      show ?thesis
      proof (cases "mn = 0")
        case False
        then have "rep_loop (Suc f) (char_matcher s P) [] g mn mx k (i, c) = ?rec"
          using mx step by (simp add: Let_def)
        also have "\<dots> = (if mn \<le> ?hi then first_some (?xs mn (Suc ?hi)) else None)"
          using rec shift [of "mn - 1"] False hi1 by auto
        finally show ?thesis .
      next
        case True
        let ?rec0 = "rep_loop f (char_matcher s P) [] g 0 ?mx' k (Suc i, c)"
        have split0: "[0..<Suc ?hi] = 0 # [Suc 0..<Suc ?hi]"
          by (simp only: upt_conv_Cons zero_less_Suc)
        have rec0: "?rec0 = first_some (?xs (Suc 0) (Suc ?hi))"
          using rec shift [of 0] True by simp
        have "rep_loop (Suc f) (char_matcher s P) [] g mn mx k (i, c) =
            (if g then (case ?rec0 of None \<Rightarrow> k (i, c) | Some z \<Rightarrow> Some z)
             else (case k (i, c) of None \<Rightarrow> ?rec0 | Some z \<Rightarrow> Some z))"
          using mx step True by (simp add: Let_def split: option.split)
        also have "\<dots> = (if mn \<le> ?hi then first_some (?xs mn (Suc ?hi)) else None)"
          unfolding rec0 using True
          by (simp add: split0 rep_order_def del: upt_Suc split: option.splits)
        finally show ?thesis .
      qed
    qed
  qed
qed

fun char_test :: "bool \<Rightarrow> regex \<Rightarrow> (char \<Rightarrow> bool) option" where
  "char_test ic (RChar ch) = Some (\<lambda>c. canonicalize ic c = canonicalize ic ch)"
| "char_test ic RDot = Some (\<lambda>c. \<not> is_line_terminator c)"
| "char_test ic (RClass neg as) = Some (\<lambda>c. class_found ic as c \<noteq> neg)"
| "char_test ic _ = None"

lemma char_test_Some:
  assumes "char_test ic r = Some P"
  shows "(\<lambda>k x. m ic s r k x) = char_matcher s P" and "groups r = []"
  using assms by (cases r; auto intro!: ext)+

lemma m_rep_char:
  assumes "char_test ic r = Some P" and "mn_le_mx mn mx"
  shows "m ic s (RRep g mn mx r) k (i, c) =
    (if mn \<le> rep_hi mx (run_len P s i)
     then first_some (map (\<lambda>j. k (i + j, c)) (rep_order g [mn..<Suc (rep_hi mx (run_len P s i))]))
     else None)"
proof -
  have "rep_hi mx (run_len P s i) \<le> length s - i"
    using run_len_le [of P s i] by (auto simp: rep_hi_def min_le_iff_disj split: option.splits)
  then have "rep_hi mx (run_len P s i) < rep_fuel s mn (i, c)"
    by (simp add: rep_fuel_def)
  with assms show ?thesis
    by (simp add: char_test_Some rep_loop_char)
qed

definition lit_at :: "bool \<Rightarrow> string \<Rightarrow> nat \<Rightarrow> string \<Rightarrow> bool" where
  "lit_at ic s i w \<longleftrightarrow>
     list_all2 (\<lambda>a b. canonicalize ic a = canonicalize ic b) (take (length w) (drop i s)) w"

lemma lit_at_Nil [simp]: "lit_at ic s i []"
  by (simp add: lit_at_def)

lemma lit_at_Cons:
  "lit_at ic s i (c # w) \<longleftrightarrow>
     i < length s \<and> canonicalize ic (s ! i) = canonicalize ic c \<and> lit_at ic s (Suc i) w"
  by (cases "i < length s") (auto simp: lit_at_def Cons_nth_drop_Suc [symmetric])

lemma m_lit:
  "m ic s (lit w) k (i, c) = (if lit_at ic s i w then k (i + length w, c) else None)"
proof (induction w arbitrary: i rule: lit.induct)
  case 1
  then show ?case by simp
next
  case (2 c')
  then show ?case by (simp add: lit_at_Cons char_matcher_def)
next
  case (3 c1 c2 cs)
  then show ?case by (simp add: lit_at_Cons char_matcher_def)
qed

lemma m_seqs_Cons: "m ic s (seqs (r # rs)) k x = m ic s r (\<lambda>y. m ic s (seqs rs) k y) x"
  by (cases rs) simp_all

subsection \<open>Declarative semantics and soundness of the matcher\<close>

definition within :: "nat option \<Rightarrow> nat \<Rightarrow> bool" where
  "within mx n \<longleftrightarrow> (case mx of None \<Rightarrow> True | Some b \<Rightarrow> n \<le> b)"

inductive rmatch :: "bool \<Rightarrow> string \<Rightarrow> regex \<Rightarrow> mstate \<Rightarrow> mstate \<Rightarrow> bool"
  and reps :: "bool \<Rightarrow> string \<Rightarrow> regex \<Rightarrow> nat \<Rightarrow> mstate \<Rightarrow> mstate \<Rightarrow> bool"
  for ic :: bool and s :: string
where
  rm_char: "char_test ic r = Some P \<Longrightarrow> fst x < length s \<Longrightarrow> P (s ! fst x) \<Longrightarrow>
    rmatch ic s r x (Suc (fst x), snd x)"
| rm_wordb: "word_before s (fst x) \<noteq> word_at s (fst x) \<Longrightarrow> rmatch ic s RWordB x x"
| rm_seq: "rmatch ic s r1 x y \<Longrightarrow> rmatch ic s r2 y z \<Longrightarrow> rmatch ic s (RSeq r1 r2) x z"
| rm_alt1: "rmatch ic s r1 x y \<Longrightarrow> rmatch ic s (RAlt r1 r2) x y"
| rm_alt2: "rmatch ic s r2 x y \<Longrightarrow> rmatch ic s (RAlt r1 r2) x y"
| rm_group: "rmatch ic s r x y \<Longrightarrow>
    rmatch ic s (RGroup n r) x (fst y, (snd y)(n := Some (fst x, fst y)))"
| rm_rep: "reps ic s r n x y \<Longrightarrow> mn \<le> n \<Longrightarrow> within mx n \<Longrightarrow> rmatch ic s (RRep g mn mx r) x y"
| rm_empty: "rmatch ic s REmpty x x"
| reps_zero: "reps ic s r 0 x x"
| reps_step: "rmatch ic s r (fst x, clear_caps (groups r) (snd x)) y \<Longrightarrow> reps ic s r n y z \<Longrightarrow>
    reps ic s r (Suc n) x z"

primrec wf_regex :: "regex \<Rightarrow> bool" where
  "wf_regex (RChar c) = True"
| "wf_regex RDot = True"
| "wf_regex (RClass b as) = True"
| "wf_regex RWordB = True"
| "wf_regex (RSeq r1 r2) = (wf_regex r1 \<and> wf_regex r2)"
| "wf_regex (RAlt r1 r2) = (wf_regex r1 \<and> wf_regex r2)"
| "wf_regex (RGroup n r) = wf_regex r"
| "wf_regex (RRep g mn mx r) = (mn_le_mx mn mx \<and> wf_regex r)"
| "wf_regex REmpty = True"

definition sound_for :: "(mstate \<Rightarrow> mstate \<Rightarrow> bool) \<Rightarrow> matcher \<Rightarrow> bool" where
  "sound_for R M \<longleftrightarrow> (\<forall>k x z. M k x = Some z \<longrightarrow> (\<exists>y. R x y \<and> k y = Some z))"

lemma sound_forI:
  "(\<And>k x z. M k x = Some z \<Longrightarrow> \<exists>y. R x y \<and> k y = Some z) \<Longrightarrow> sound_for R M"
  unfolding sound_for_def by blast

lemma sound_forD: "sound_for R M \<Longrightarrow> M k x = Some z \<Longrightarrow> \<exists>y. R x y \<and> k y = Some z"
  unfolding sound_for_def by blast

lemma rep_loop_sound:
  assumes mr: "sound_for (rmatch ic s r) mr"
  shows "mn_le_mx mn mx \<Longrightarrow> rep_loop f mr (groups r) g mn mx k x = Some z \<Longrightarrow>
    \<exists>n y. reps ic s r n x y \<and> mn \<le> n \<and> within mx n \<and> k y = Some z"
proof (induction f arbitrary: mn mx x)
  case 0
  then show ?case by simp
next
  case (Suc f)
  let ?xr = "(fst x, clear_caps (groups r) (snd x))"
  let ?mx' = "map_option (\<lambda>j. j - 1) mx"
  let ?d = "\<lambda>y. if mn = 0 \<and> fst y = fst x then None
               else rep_loop f mr (groups r) g (mn - 1) ?mx' k y"
  have wf': "mn_le_mx (mn - 1) ?mx'"
    using Suc.prems(1) by (auto simp: mn_le_mx_def split: option.splits)
  have here: "\<exists>n y. reps ic s r n x y \<and> mn \<le> n \<and> within mx n \<and> k y = Some z"
    if "k x = Some z" "mn = 0"
    using that by (intro exI [of _ 0] exI [of _ x]) (auto intro: reps_zero simp: within_def split: option.splits)
  have iter: "\<exists>n y. reps ic s r n x y \<and> mn \<le> n \<and> within mx n \<and> k y = Some z"
    if md: "mr ?d ?xr = Some z" and mx0: "mx \<noteq> Some 0"
  proof -
    obtain y where y: "rmatch ic s r ?xr y" "?d y = Some z"
      using sound_forD [OF mr md] by blast
    then have "rep_loop f mr (groups r) g (mn - 1) ?mx' k y = Some z"
      by (simp split: if_splits)
    then obtain n y' where "reps ic s r n y y'" "mn - 1 \<le> n" "within ?mx' n" "k y' = Some z"
      using Suc.IH [OF wf'] by blast
    moreover have "reps ic s r (Suc n) x y'"
      using y(1) \<open>reps ic s r n y y'\<close> by (rule reps_step)
    moreover have "within mx (Suc n)"
      using \<open>within ?mx' n\<close> mx0 by (auto simp: within_def split: option.splits)
    ultimately show ?thesis using \<open>mn - 1 \<le> n\<close> by (intro exI [of _ "Suc n"] exI [of _ y']) auto
  qed
  show ?case
  proof (cases "mx = Some 0")
    case True
    with Suc.prems have "k x = Some z" "mn = 0" by (auto simp: mn_le_mx_def)
    then show ?thesis by (rule here)
  next
    case False
    then show ?thesis
      using Suc.prems(2) iter here
      by (auto simp: Let_def split: if_splits option.splits)
  qed
qed

lemma sound_char_matcher:
  "char_test ic r = Some P \<Longrightarrow> sound_for (rmatch ic s r) (char_matcher s P)"
  by (rule sound_forI) (auto simp: char_matcher_def split: if_splits intro: rm_char)

theorem m_sound: "wf_regex r \<Longrightarrow> sound_for (rmatch ic s r) (m ic s r)"
proof (induction r)
  case (RChar ch)
  have "m ic s (RChar ch) = char_matcher s (\<lambda>c. canonicalize ic c = canonicalize ic ch)"
    by (intro ext) simp
  then show ?case using sound_char_matcher [of ic "RChar ch"] by simp
next
  case RDot
  have "m ic s RDot = char_matcher s (\<lambda>c. \<not> is_line_terminator c)"
    by (intro ext) simp
  then show ?case using sound_char_matcher [of ic RDot] by simp
next
  case (RClass neg as)
  have "m ic s (RClass neg as) = char_matcher s (\<lambda>c. class_found ic as c \<noteq> neg)"
    by (intro ext) simp
  then show ?case using sound_char_matcher [of ic "RClass neg as"] by simp
next
  case RWordB
  show ?case by (rule sound_forI) (auto split: if_splits intro: rm_wordb)
next
  case (RSeq r1 r2)
  show ?case
  proof (rule sound_forI)
    fix k x z
    assume "m ic s (RSeq r1 r2) k x = Some z"
    then obtain y where y: "rmatch ic s r1 x y" "m ic s r2 k y = Some z"
      using sound_forD [OF RSeq.IH(1)] RSeq.prems by fastforce
    then obtain y' where "rmatch ic s r2 y y'" "k y' = Some z"
      using sound_forD [OF RSeq.IH(2)] RSeq.prems by fastforce
    with y show "\<exists>y. rmatch ic s (RSeq r1 r2) x y \<and> k y = Some z"
      by (blast intro: rm_seq)
  qed
next
  case (RAlt r1 r2)
  show ?case
  proof (rule sound_forI)
    fix k x z
    assume alt: "m ic s (RAlt r1 r2) k x = Some z"
    show "\<exists>y. rmatch ic s (RAlt r1 r2) x y \<and> k y = Some z"
    proof (cases "m ic s r1 k x")
      case None
      with alt have "m ic s r2 k x = Some z" by simp
      then show ?thesis using sound_forD [OF RAlt.IH(2)] RAlt.prems by (fastforce intro: rm_alt2)
    next
      case (Some z')
      with alt have "m ic s r1 k x = Some z" by simp
      then show ?thesis using sound_forD [OF RAlt.IH(1)] RAlt.prems by (fastforce intro: rm_alt1)
    qed
  qed
next
  case (RGroup n r)
  show ?case
  proof (rule sound_forI)
    fix k x z
    assume "m ic s (RGroup n r) k x = Some z"
    then obtain y where "rmatch ic s r x y" "k (fst y, (snd y)(n := Some (fst x, fst y))) = Some z"
      using sound_forD [OF RGroup.IH] RGroup.prems by fastforce
    then show "\<exists>y. rmatch ic s (RGroup n r) x y \<and> k y = Some z"
      by (blast intro: rm_group)
  qed
next
  case (RRep g mn mx r)
  have mr: "sound_for (rmatch ic s r) (\<lambda>k' x'. m ic s r k' x')"
    using RRep.IH RRep.prems by simp
  show ?case
  proof (rule sound_forI)
    fix k x z
    assume "m ic s (RRep g mn mx r) k x = Some z"
    then have "rep_loop (rep_fuel s mn x) (\<lambda>k' x'. m ic s r k' x') (groups r) g mn mx k x = Some z"
      by simp
    then obtain n y where "reps ic s r n x y" "mn \<le> n" "within mx n" "k y = Some z"
      using rep_loop_sound [OF mr] RRep.prems by fastforce
    then show "\<exists>y. rmatch ic s (RRep g mn mx r) x y \<and> k y = Some z"
      by (blast intro: rm_rep)
  qed
next
  case REmpty
  show ?case by (rule sound_forI) (auto intro: rm_empty)
qed

subsection \<open>Inverting the semantics\<close>

inductive_cases rmatch_SeqE: "rmatch ic s (RSeq r1 r2) x z"
inductive_cases rmatch_AltE: "rmatch ic s (RAlt r1 r2) x z"
inductive_cases rmatch_GroupE: "rmatch ic s (RGroup n r) x z"
inductive_cases rmatch_RepE: "rmatch ic s (RRep g mn mx r) x z"
inductive_cases rmatch_WordBE: "rmatch ic s RWordB x z"
inductive_cases rmatch_EmptyE: "rmatch ic s REmpty x z"
inductive_cases reps_SucE: "reps ic s r (Suc n) x z"
inductive_cases reps_0E: "reps ic s r 0 x z"

lemma rmatch_char_inv:
  assumes "char_test ic r = Some P" and "rmatch ic s r x y"
  shows "y = (Suc (fst x), snd x) \<and> fst x < length s \<and> P (s ! fst x)"
  using assms(2,1) by (cases rule: rmatch.cases) auto

lemma reps_char:
  assumes "char_test ic r = Some P"
  shows "reps ic s r n x z \<Longrightarrow>
    z = (fst x + n, snd x) \<and> (\<forall>j<n. fst x + j < length s \<and> P (s ! (fst x + j)))"
proof (induction n arbitrary: x)
  case 0
  then show ?case by (auto elim: reps_0E)
next
  case (Suc n)
  from Suc.prems obtain y where y: "rmatch ic s r (fst x, clear_caps (groups r) (snd x)) y"
    and rest: "reps ic s r n y z"
    by (auto elim: reps_SucE)
  have g: "groups r = []" using char_test_Some(2) [OF assms] .
  from rmatch_char_inv [OF assms y] g
  have y': "y = (Suc (fst x), snd x)" "fst x < length s" "P (s ! fst x)" by auto
  from Suc.IH [OF rest] y' have "z = (Suc (fst x) + n, snd x)"
    and all: "\<forall>j<n. Suc (fst x) + j < length s \<and> P (s ! (Suc (fst x) + j))" by auto
  moreover have "\<forall>j<Suc n. fst x + j < length s \<and> P (s ! (fst x + j))"
  proof (intro allI impI)
    fix j assume "j < Suc n"
    then show "fst x + j < length s \<and> P (s ! (fst x + j))"
      using y' all by (cases j) auto
  qed
  ultimately show ?case by simp
qed

lemma rmatch_rep_char:
  assumes "char_test ic r = Some P" and "rmatch ic s (RRep g mn mx r) x z"
  shows "\<exists>n. mn \<le> n \<and> within mx n \<and> z = (fst x + n, snd x) \<and>
           (\<forall>j<n. fst x + j < length s \<and> P (s ! (fst x + j)))"
  using assms(2) by (auto elim!: rmatch_RepE dest: reps_char [OF assms(1)])

lemma rmatch_seqs_Cons:
  "rmatch ic s (seqs (r # rs)) x z \<Longrightarrow> \<exists>y. rmatch ic s r x y \<and> rmatch ic s (seqs rs) y z"
proof (cases rs)
  case Nil
  then show "rmatch ic s (seqs (r # rs)) x z \<Longrightarrow> ?thesis"
    by (intro exI [of _ z]) (simp add: rm_empty)
next
  case (Cons r' rs')
  then show "rmatch ic s (seqs (r # rs)) x z \<Longrightarrow> ?thesis"
    by (auto elim!: rmatch_SeqE)
qed

lemma rmatch_lit:
  "rmatch ic s (lit w) x z \<Longrightarrow> z = (fst x + length w, snd x) \<and> lit_at ic s (fst x) w"
proof (induction w arbitrary: x rule: lit.induct)
  case 1
  then show ?case by (auto elim: rmatch_EmptyE)
next
  case (2 c)
  then show ?case
    using rmatch_char_inv [of ic "RChar c" _ s x z] by (auto simp: lit_at_Cons)
next
  case (3 c1 c2 cs)
  from "3.prems" obtain y where y: "rmatch ic s (RChar c1) x y" and r: "rmatch ic s (lit (c2 # cs)) y z"
    by (auto elim: rmatch_SeqE)
  from rmatch_char_inv [OF _ y] have y': "y = (Suc (fst x), snd x)" "fst x < length s"
    "canonicalize ic (s ! fst x) = canonicalize ic c1" by auto
  from "3.IH" [OF r] y' show ?case by (auto simp: lit_at_Cons)
qed

theorem exec_from_sound:
  "wf_regex r \<Longrightarrow> exec_from ic s r i = Some (p, y) \<Longrightarrow> rmatch ic s r (p, no_caps) y"
  using sound_forD [OF m_sound [of r ic s], of Some "(p, no_caps)" y]
  by (auto simp: exec_from_Some_iff)

subsection \<open>Single-character patterns: search and global replace\<close>

lemma m_char_atom:
  "char_test ic r = Some P \<Longrightarrow>
   m ic s r Some (j, c) = (if j < length s \<and> P (s ! j) then Some (Suc j, c) else None)"
  using char_test_Some(1) [of ic r P s] by (simp add: char_matcher_def fun_eq_iff)

lemma exec_char_atom:
  assumes "char_test ic r = Some P"
  shows "exec_from ic s r i =
     (if i + run_len (\<lambda>c. \<not> P c) s i < length s
      then Some (i + run_len (\<lambda>c. \<not> P c) s i, (Suc (i + run_len (\<lambda>c. \<not> P c) s i), no_caps))
      else None)"
proof (cases "i + run_len (\<lambda>c. \<not> P c) s i < length s")
  case True
  let ?p = "i + run_len (\<lambda>c. \<not> P c) s i"
  have "P (s ! ?p)" using run_len_stop [OF True] by simp
  moreover have "\<not> P (s ! j)" if "i \<le> j" "j < ?p" for j
    using run_len_nth [of "j - i" "\<lambda>c. \<not> P c" s i] that by simp
  ultimately show ?thesis
    using True by (simp add: exec_from_Some_iff m_char_atom [OF assms])
next
  case False
  have "\<not> P (s ! j)" if "i \<le> j" "j < length s" for j
    using run_len_nth [of "j - i" "\<lambda>c. \<not> P c" s i] that False by simp
  then show ?thesis
    using False by (auto simp: exec_from_None_iff m_char_atom [OF assms])
qed

lemma concat_map_keep:
  "\<forall>c \<in> set xs. \<not> P c \<Longrightarrow> concat (map (\<lambda>c. if P c then rep else [c]) xs) = xs"
  by (induction xs) auto

lemma run_prefix_all:
  "\<forall>c \<in> set (take (run_len P s i) (drop i s)). P c"
  unfolding run_len_def by (auto simp: takeWhile_eq_take [symmetric] dest: set_takeWhileD)

lemma replace_from_char:
  assumes P: "char_test ic r = Some P"
  shows "replace_from ic s r rep i i = concat (map (\<lambda>c. if P c then rep else [c]) (drop i s))"
proof (induction "length s - i" arbitrary: i rule: less_induct)
  case less
  let ?n = "run_len (\<lambda>c. \<not> P c) s i"
  let ?p = "i + ?n"
  let ?f = "\<lambda>xs. concat (map (\<lambda>c. if P c then rep else [c]) xs)"
  have pre: "\<forall>c \<in> set (take ?n (drop i s)). \<not> P c" by (rule run_prefix_all)
  show ?case
  proof (cases "?p < length s")
    case False
    then have "take ?n (drop i s) = drop i s"
      using run_len_le [of "\<lambda>c. \<not> P c" s i] by simp
    then have "?f (drop i s) = drop i s" using concat_map_keep pre by metis
    then show ?thesis
      using False by (simp add: replace_from.simps [of ic s r rep i i] exec_char_atom [OF P])
  next
    case True
    have sp: "P (s ! ?p)" using run_len_stop [OF True] by simp
    have "length s - Suc ?p < length s - i" using True by simp
    then have IH: "replace_from ic s r rep (Suc ?p) (Suc ?p) = ?f (drop (Suc ?p) s)"
      by (rule less)
    have lhs: "replace_from ic s r rep i i = substr s i ?p @ rep @ replace_from ic s r rep (Suc ?p) (Suc ?p)"
      using True by (simp add: replace_from.simps [of ic s r rep i i] exec_char_atom [OF P])
    have split: "drop i s = take ?n (drop i s) @ s ! ?p # drop (Suc ?p) s"
    proof -
      have "drop ?n (drop i s) = drop ?p s" by (simp add: add.commute)
      also have "\<dots> = s ! ?p # drop (Suc ?p) s" using True by (rule Cons_nth_drop_Suc [symmetric])
      finally show ?thesis by (metis append_take_drop_id)
    qed
    have "?f (drop i s) = take ?n (drop i s) @ rep @ ?f (drop (Suc ?p) s)"
      using sp concat_map_keep [OF pre] by (subst split) simp
    then show ?thesis using lhs IH by (simp add: substr_def)
  qed
qed

lemma substr_append:
  "a \<le> b \<Longrightarrow> b \<le> c \<Longrightarrow> substr s a c = substr s a b @ substr s b c"
proof -
  assume ab: "a \<le> b" and bc: "b \<le> c"
  then have "c - a = (b - a) + (c - b)" by simp
  then have "take (c - a) (drop a s) = take (b - a) (drop a s) @ take (c - b) (drop (b - a) (drop a s))"
    by (simp only: take_add)
  moreover have "drop (b - a) (drop a s) = drop b s" using ab by simp
  ultimately show ?thesis by (simp add: substr_def)
qed

lemma substr_run:
  assumes "\<forall>j<n. a + j < length s \<and> P (s ! (a + j))"
  shows "length (substr s a (a + n)) = n \<and> (\<forall>x \<in> set (substr s a (a + n)). P x)"
proof -
  have len: "length (substr s a (a + n)) = n"
  proof (cases n)
    case 0
    then show ?thesis by (simp add: substr_def)
  next
    case (Suc n')
    then have "a + n' < length s" using assms by auto
    then show ?thesis by (simp add: substr_def Suc)
  qed
  have "P (substr s a (a + n) ! j)" if "j < n" for j
    using assms that len by (simp add: substr_def)
  then show ?thesis using len by (auto simp: in_set_conv_nth)
qed

subsection \<open>Inversion rules for the pattern constructors the extractors use\<close>

lemma rmatch_count:
  assumes "char_test ic r = Some P" and "rmatch ic s (count n r) (a, c) z"
  shows "z = (a + n, c) \<and> (\<forall>j<n. a + j < length s \<and> P (s ! (a + j)))"
proof -
  obtain k where "n \<le> k" "within (Some n) k" "z = (a + k, c)"
    "\<forall>j<k. a + j < length s \<and> P (s ! (a + j))"
    using rmatch_rep_char [OF assms] by auto
  then show ?thesis by (simp add: within_def)
qed

lemma rmatch_RChar:
  "rmatch ic s (RChar ch) (a, c) z \<Longrightarrow>
   z = (Suc a, c) \<and> a < length s \<and> canonicalize ic (s ! a) = canonicalize ic ch"
  using rmatch_char_inv [of ic "RChar ch" _ s "(a, c)" z] by simp

lemma rmatch_group:
  "rmatch ic s (RGroup n r) x z \<Longrightarrow>
   \<exists>y. rmatch ic s r x y \<and> z = (fst y, (snd y)(n := Some (fst x, fst y)))"
  by (erule rmatch_GroupE) (simp, blast)

lemma substr_nth: "a + n \<le> length s \<Longrightarrow> j < n \<Longrightarrow> substr s a (a + n) ! j = s ! (a + j)"
  by (simp add: substr_def)

lemma length_substr: "a + n \<le> length s \<Longrightarrow> length (substr s a (a + n)) = n"
  by (simp add: substr_def)

lemma canonicalize_False [simp]: "canonicalize False c = c"
  by (simp add: canonicalize_def)

lemma char_test_cls: "char_test False (cls as) = Some (class_mem as)"
  by (simp add: class_found_def fun_eq_iff)

lemma group_text_at:
  "group_text t (p, (e, cap(n := Some (a, b)))) n = Some (substr t a b)"
  by (simp add: group_text_def)

lemma rmatch_wordb: "rmatch ic s RWordB x y \<Longrightarrow> y = x \<and> word_before s (fst x) \<noteq> word_at s (fst x)"
  by (auto elim: rmatch_WordBE)

subsection \<open>The contract of \<open>str.match\<close>\<close>

text \<open>A match that \<open>str.match\<close> reports is a match of the declarative
  semantics: the pattern relates the reported start, with no captures, to the reported
  end state, and the match lies inside the subject.\<close>

theorem js_match_sound:
  "wf_regex r \<Longrightarrow> js_match ic r s = Some (p, y) \<Longrightarrow>
   rmatch ic s r (p, no_caps) y \<and> p \<le> fst y \<and> fst y \<le> length s"
  unfolding js_match_def using exec_from_sound exec_from_bounds by blast

theorem js_match_sound_witness:
  "wf_regex (RSeq (RChar CHR ''a'') (star (RChar CHR ''b''))) \<and>
   js_match False (RSeq (RChar CHR ''a'') (star (RChar CHR ''b''))) ''xab'' = Some (1, (3, no_caps)) \<and>
   rmatch False ''xab'' (RSeq (RChar CHR ''a'') (star (RChar CHR ''b''))) (1, no_caps) (3, no_caps)"
proof -
  have e: "js_match False (RSeq (RChar CHR ''a'') (star (RChar CHR ''b''))) ''xab'' = Some (1, (3, no_caps))"
    by (simp add: js_match_def exec_from.simps char_matcher_def rep_fuel_def clear_caps_def)
  have w: "wf_regex (RSeq (RChar CHR ''a'') (star (RChar CHR ''b'')))"
    by (simp add: mn_le_mx_def)
  show ?thesis using js_match_sound [OF w e] w e by simp
qed

text \<open>\<open>str.match\<close> reports the leftmost start index at which the backtracking
  matcher succeeds, with the matcher's result there; no earlier index matches.\<close>

theorem js_match_leftmost:
  "js_match ic r s = Some (p, y) \<longleftrightarrow>
     p \<le> length s \<and> m ic s r Some (p, no_caps) = Some y \<and>
     (\<forall>j < p. m ic s r Some (j, no_caps) = None)"
  unfolding js_match_def exec_from_Some_iff by simp

theorem js_match_leftmost_witness:
  "js_match False (RChar CHR ''a'') ''bca'' = Some (2, (3, no_caps)) \<and>
   m False ''bca'' (RChar CHR ''a'') Some (0, no_caps) = None \<and>
   m False ''bca'' (RChar CHR ''a'') Some (1, no_caps) = None"
proof -
  have e: "js_match False (RChar CHR ''a'') ''bca'' = Some (2, (3, no_caps))"
    by (simp add: js_match_def exec_from.simps char_matcher_def)
  from js_match_leftmost [THEN iffD1, OF e] have "\<forall>j < 2. m False ''bca'' (RChar CHR ''a'') Some (j, no_caps) = None"
    by blast
  then show ?thesis using e by (simp add: less_Suc_eq numeral_2_eq_2)
qed

subsection \<open>Counted and optional single-character atoms, and the scan\<close>

text \<open>The forms the extractors' completeness proofs use: \<open>a{n}\<close> consumes exactly
  \<open>n\<close> characters when the run allows it, \<open>a?\<close> tries one character and then none,
  and a scan whose matcher succeeds exactly at the indices of a predicate finds the
  first of them.\<close>

lemma exec_from_find:
  assumes "\<And>j. m ic s r Some (j, no_caps) = (if Q j then Some (f j) else None)"
  shows "exec_from ic s r i = map_option (\<lambda>j. (j, f j)) (find Q [i..<Suc (length s)])"
proof (induction "Suc (length s) - i" arbitrary: i)
  case 0
  then have "length s < i" by simp
  then show ?case by (simp add: exec_from.simps [of ic s r i])
next
  case (Suc d)
  then have i: "i \<le> length s" by simp
  have "[i..<Suc (length s)] = i # [Suc i..<Suc (length s)]" using i by (simp add: upt_conv_Cons)
  moreover have "exec_from ic s r (Suc i) = map_option (\<lambda>j. (j, f j)) (find Q [Suc i..<Suc (length s)])"
    using Suc.hyps(1) [of "Suc i"] Suc.hyps(2) by simp
  ultimately show ?case
    using i assms [of i] by (simp add: exec_from.simps [of ic s r i])
qed

lemma run_len_ge:
  "n \<le> run_len P s i \<longleftrightarrow> (\<forall>j < n. i + j < length s \<and> P (s ! (i + j)))"
proof (induction n arbitrary: i)
  case 0
  then show ?case by simp
next
  case (Suc n)
  show ?case
  proof (cases "i < length s \<and> P (s ! i)")
    case True
    then have "Suc n \<le> run_len P s i \<longleftrightarrow> n \<le> run_len P s (Suc i)" by (simp add: run_len_Suc)
    also have "\<dots> \<longleftrightarrow> (\<forall>j < n. Suc i + j < length s \<and> P (s ! (Suc i + j)))" by (rule Suc.IH)
    also have "\<dots> \<longleftrightarrow> (\<forall>j < Suc n. i + j < length s \<and> P (s ! (i + j)))"
      using True by (auto simp: less_Suc_eq_0_disj)
    finally show ?thesis .
  next
    case False
    then show ?thesis by (auto simp: run_len_zero dest: spec [of _ 0])
  qed
qed

lemma m_count_char:
  assumes "char_test ic r = Some P"
  shows "m ic s (count n r) k (j, c) = (if n \<le> run_len P s j then k (j + n, c) else None)"
proof -
  have "m ic s (count n r) k (j, c) =
      (if n \<le> rep_hi (Some n) (run_len P s j)
       then first_some (map (\<lambda>i. k (j + i, c)) (rep_order True [n..<Suc (rep_hi (Some n) (run_len P s j))]))
       else None)"
    by (rule m_rep_char [OF assms]) (simp add: mn_le_mx_def)
  then show ?thesis by (simp add: rep_hi_def rep_order_def split: option.split)
qed

lemma m_opt_char:
  assumes "char_test ic r = Some P"
  shows "m ic s (opt r) k (j, c) =
    (if j < length s \<and> P (s ! j) then (case k (Suc j, c) of None \<Rightarrow> k (j, c) | Some z \<Rightarrow> Some z)
     else k (j, c))"
proof -
  have "m ic s (opt r) k (j, c) =
      (if 0 \<le> rep_hi (Some 1) (run_len P s j)
       then first_some (map (\<lambda>i. k (j + i, c)) (rep_order True [0..<Suc (rep_hi (Some 1) (run_len P s j))]))
       else None)"
    by (rule m_rep_char [OF assms]) (simp add: mn_le_mx_def)
  moreover have "rep_hi (Some 1) (run_len P s j) = (if j < length s \<and> P (s ! j) then 1 else 0)"
    using run_len_pos [of P s j] by (auto simp: rep_hi_def)
  ultimately show ?thesis by (simp add: rep_order_def split: option.split)
qed

end
