(* ===== verification/Normalize.thy ===== *)
theory Normalize
  imports RegExp_Sem
begin

text \<open>
  The Text Normalizer: the first line of \<open>cleanOCRText\<close> (src/src/server.js,
  line 70), \<open>text.replace(/\s+/g, " ").trim()\<close>. \<open>ws_regex\<close> is the pattern
  literal, \<open>normalize_text\<close> the line. \<open>collapse_ws\<close> is a direct
  reference function (each run of white space becomes one space); the global
  replace is proved equal to it, and the normaliser's contract is proved of the
  reference: only single spaces remain, none at the ends, the other characters
  are kept in order, and normalising is idempotent.
\<close>

text \<open>\<open>/\s+/g\<close>\<close>

definition ws_regex :: regex where
  "ws_regex = plus (cls [CSpace])"

text \<open>\<open>let cleanedText = text.replace(/\s+/g, " ").trim();\<close>\<close>

definition normalize_text :: "string \<Rightarrow> string" where
  "normalize_text text = js_trim (js_replace_all False ws_regex '' '' text)"

text \<open>Reference: every maximal run of white space becomes one space.\<close>

function collapse_ws :: "string \<Rightarrow> string" where
  "collapse_ws [] = []"
| "collapse_ws (c # cs) =
     (if is_js_space c then CHR '' '' # collapse_ws (dropWhile is_js_space cs)
      else c # collapse_ws cs)"
  by pat_completeness auto
termination
  by (relation "measure length") (auto simp: le_imp_less_Suc length_dropWhile_le)

subsection \<open>The normal form\<close>

text \<open>What the normaliser promises: white space only as single spaces (no two
  adjacent white-space characters, and the only one left is the space), none at
  either end.\<close>

fun no_double_space :: "string \<Rightarrow> bool" where
  "no_double_space (a # b # cs) \<longleftrightarrow> \<not> (is_js_space a \<and> is_js_space b) \<and> no_double_space (b # cs)"
| "no_double_space _ \<longleftrightarrow> True"

definition single_spaces :: "string \<Rightarrow> bool" where
  "single_spaces t \<longleftrightarrow> (\<forall>c \<in> set t. is_js_space c \<longrightarrow> c = CHR '' '') \<and> no_double_space t"

definition normal_form :: "string \<Rightarrow> bool" where
  "normal_form t \<longleftrightarrow> single_spaces t \<and> (t \<noteq> [] \<longrightarrow> \<not> is_js_space (hd t) \<and> \<not> is_js_space (last t))"

subsection \<open>The global replace is the collapse\<close>

lemma char_test_ws: "char_test False (cls [CSpace]) = Some is_js_space"
  by (simp add: class_found_def class_mem_def)

lemma m_ws_regex:
  "m False s ws_regex Some (j, c) =
     (if j < length s \<and> is_js_space (s ! j) then Some (j + run_len is_js_space s j, c) else None)"
proof -
  let ?R = "run_len is_js_space s j"
  have "m False s ws_regex Some (j, c) =
      (if 1 \<le> rep_hi None ?R
       then first_some (map (\<lambda>i. Some (j + i, c)) (rep_order True [1..<Suc (rep_hi None ?R)]))
       else None)"
    unfolding ws_regex_def by (rule m_rep_char [OF char_test_ws]) (simp add: mn_le_mx_def)
  also have "\<dots> = (if 1 \<le> ?R then Some (j + ?R, c) else None)"
    by (simp add: rep_hi_def rep_order_def)
  also have "1 \<le> ?R \<longleftrightarrow> j < length s \<and> is_js_space (s ! j)"
    by (simp add: Suc_le_eq run_len_pos)
  finally show ?thesis .
qed

abbreviation nonspace_run :: "string \<Rightarrow> nat \<Rightarrow> nat" where
  "nonspace_run s i \<equiv> run_len (\<lambda>c. \<not> is_js_space c) s i"

lemma exec_ws_regex:
  "exec_from False s ws_regex i =
     (if i + nonspace_run s i < length s
      then Some (i + nonspace_run s i,
                 (i + nonspace_run s i + run_len is_js_space s (i + nonspace_run s i), no_caps))
      else None)"
proof (cases "i + nonspace_run s i < length s")
  case True
  let ?p = "i + nonspace_run s i"
  have sp: "is_js_space (s ! ?p)" using run_len_stop [OF True] by simp
  have before: "\<not> is_js_space (s ! j)" if "i \<le> j" "j < ?p" for j
    using run_len_nth [of "j - i" "\<lambda>c. \<not> is_js_space c" s i] that by simp
  show ?thesis
    using True sp before by (simp add: exec_from_Some_iff m_ws_regex)
next
  case False
  have "\<not> is_js_space (s ! j)" if "i \<le> j" "j < length s" for j
    using run_len_nth [of "j - i" "\<lambda>c. \<not> is_js_space c" s i] that False by simp
  then show ?thesis
    using False by (auto simp: exec_from_None_iff m_ws_regex)
qed

lemma collapse_ws_nonspace_append:
  "\<forall>c \<in> set xs. \<not> is_js_space c \<Longrightarrow> collapse_ws (xs @ ys) = xs @ collapse_ws ys"
  by (induction xs) auto

lemma nonspace_prefix:
  "\<forall>c \<in> set (take (nonspace_run s i) (drop i s)). \<not> is_js_space c"
  unfolding run_len_def by (auto simp: takeWhile_eq_take [symmetric] dest: set_takeWhileD)

lemma collapse_ws_split:
  "\<forall>c \<in> set xs. \<not> is_js_space c \<Longrightarrow> is_js_space c0 \<Longrightarrow>
   collapse_ws (xs @ c0 # ys) = xs @ CHR '' '' # collapse_ws (dropWhile is_js_space ys)"
  by (simp add: collapse_ws_nonspace_append)

lemma collapse_ws_step:
  assumes True: "i + nonspace_run s i < length s"
  shows "collapse_ws (drop i s) = substr s i (i + nonspace_run s i) @ CHR '' '' #
     collapse_ws (drop (i + nonspace_run s i + run_len is_js_space s (i + nonspace_run s i)) s)"
proof -
  let ?p = "i + nonspace_run s i"
  define xs where "xs = take (nonspace_run s i) (drop i s)"
  have sp: "is_js_space (s ! ?p)" using run_len_stop [OF True] by simp
  have e: "?p + run_len is_js_space s ?p = Suc ?p + run_len is_js_space s (Suc ?p)"
    using sp True by (simp add: run_len_Suc)
  have split: "drop i s = xs @ s ! ?p # drop (Suc ?p) s"
  proof -
    have "drop (nonspace_run s i) (drop i s) = drop ?p s" by (simp add: add.commute)
    also have "\<dots> = s ! ?p # drop (Suc ?p) s" using True by (rule Cons_nth_drop_Suc [symmetric])
    finally show ?thesis unfolding xs_def by (metis append_take_drop_id)
  qed
  have tail: "dropWhile is_js_space (drop (Suc ?p) s) = drop (?p + run_len is_js_space s ?p) s"
    unfolding e by (simp add: dropWhile_eq_drop run_len_def add.commute)
  have "collapse_ws (drop i s) = xs @ CHR '' '' # collapse_ws (drop (?p + run_len is_js_space s ?p) s)"
    unfolding split collapse_ws_split [OF nonspace_prefix [of s i, folded xs_def] sp] tail ..
  then show ?thesis by (simp add: xs_def substr_def)
qed
lemma replace_from_ws_step:
  assumes True: "i + nonspace_run s i < length s"
  shows "replace_from False s ws_regex '' '' i i =
        substr s i (i + nonspace_run s i) @ '' '' @ replace_from False s ws_regex '' '' (i + nonspace_run s i + run_len is_js_space s (i + nonspace_run s i)) (i + nonspace_run s i + run_len is_js_space s (i + nonspace_run s i))"
proof -
  let ?p = "i + nonspace_run s i"
  have sp: "is_js_space (s ! ?p)" using run_len_stop [OF True] by simp
  then have "0 < run_len is_js_space s ?p" using True by (simp add: run_len_pos)
  then show ?thesis
    using True by (simp add: replace_from.simps [of False s ws_regex "'' ''" i i] exec_ws_regex)
qed

lemma all_nonspace_drop:
  assumes "nonspace_run s i = length (drop i s)"
  shows "\<forall>c \<in> set (drop i s). \<not> is_js_space c"
proof -
  have "take (nonspace_run s i) (drop i s) = drop i s" using assms by (simp only: take_all_iff order_refl)
  then show ?thesis using nonspace_prefix [of s i] by (simp only:)
qed
lemma collapse_ws_all_nonspace:
  "\<forall>c \<in> set (drop i s). \<not> is_js_space c \<Longrightarrow> collapse_ws (drop i s) = drop i s"
  using collapse_ws_nonspace_append [of "drop i s" "[]"] by (simp only: append_Nil2 collapse_ws.simps(1))
lemma replace_from_ws_none:
  assumes False: "\<not> i + nonspace_run s i < length s"
  shows "replace_from False s ws_regex '' '' i i = drop i s"
  using False by (simp add: replace_from.simps [of False s ws_regex "'' ''" i i] exec_ws_regex)
lemma replace_from_ws:
  "replace_from False s ws_regex '' '' i i = collapse_ws (drop i s)"
proof (induction "length s - i" arbitrary: i rule: less_induct)
  case less
  let ?p = "i + nonspace_run s i"
  let ?e = "?p + run_len is_js_space s ?p"
  show ?case
  proof (cases "?p < length s")
    case False
    then have "nonspace_run s i = length (drop i s)"
      using run_len_le [of "\<lambda>c. \<not> is_js_space c" s i] by simp
    then have "collapse_ws (drop i s) = drop i s" by (intro collapse_ws_all_nonspace all_nonspace_drop)
    then show ?thesis using replace_from_ws_none [OF False] by (simp only:)
  next
    case True
    have "0 < run_len is_js_space s ?p"
      using run_len_stop [OF True] True by (simp add: run_len_pos)
    moreover have "?e \<le> length s" using run_len_le [of is_js_space s ?p] True by simp
    ultimately have "length s - ?e < length s - i" by simp
    then have "replace_from False s ws_regex '' '' ?e ?e = collapse_ws (drop ?e s)"
      by (rule less)
    then show ?thesis
      using replace_from_ws_step [OF True] collapse_ws_step [OF True] by simp
  qed
qed
text \<open>C16: the regular-expression replace followed by trim computes the reference
  collapse followed by trim.\<close>

theorem normalize_text_collapse_ws: "normalize_text s = js_trim (collapse_ws s)"
  using replace_from_ws [of s 0] by (simp add: normalize_text_def js_replace_all_def)

lemmas normalize_text_unfold = normalize_text_def js_replace_all_def replace_from_ws drop_0

text \<open>Evaluation by the kernel (\<open>code_simp\<close>) uses the reference function.\<close>

lemma normalize_text_code [code]: "normalize_text s = js_trim (collapse_ws s)"
  by (simp add: normalize_text_unfold)

subsection \<open>The normaliser's contract\<close>

lemma space_char_space [simp]: "is_js_space CHR '' ''"
  by (simp add: is_js_space_def)

lemma collapse_ws_Nil_iff [simp]: "collapse_ws s = [] \<longleftrightarrow> s = []"
  by (cases s) auto

lemma hd_collapse_ws: "s \<noteq> [] \<Longrightarrow> is_js_space (hd (collapse_ws s)) \<longleftrightarrow> is_js_space (hd s)"
  by (cases s) auto

lemma collapse_ws_spaces: "c \<in> set (collapse_ws s) \<Longrightarrow> is_js_space c \<Longrightarrow> c = CHR '' ''"
  by (induction s rule: collapse_ws.induct) (auto split: if_splits)

lemma no_double_space_Cons:
  "no_double_space (c # cs) \<longleftrightarrow> (cs \<noteq> [] \<longrightarrow> \<not> (is_js_space c \<and> is_js_space (hd cs))) \<and> no_double_space cs"
  by (cases cs) auto

lemma collapse_ws_no_double: "no_double_space (collapse_ws s)"
proof (induction s rule: collapse_ws.induct)
  case 1
  then show ?case by simp
next
  case (2 c cs)
  show ?case
  proof (cases "is_js_space c")
    case True
    have "dropWhile is_js_space cs \<noteq> [] \<Longrightarrow> \<not> is_js_space (hd (dropWhile is_js_space cs))"
      by (rule hd_dropWhile)
    then show ?thesis
      using True "2.IH"(1) by (auto simp: no_double_space_Cons hd_collapse_ws)
  next
    case False
    then show ?thesis
      using "2.IH"(2) by (auto simp: no_double_space_Cons)
  qed
qed

lemma filter_dropWhile_same:
  "filter (\<lambda>c. \<not> P c) (dropWhile P xs) = filter (\<lambda>c. \<not> P c) xs"
  by (induction xs) auto

lemma collapse_ws_filter:
  "filter (\<lambda>c. \<not> is_js_space c) (collapse_ws s) = filter (\<lambda>c. \<not> is_js_space c) s"
  by (induction s rule: collapse_ws.induct) (auto simp: filter_dropWhile_same)

lemma single_spaces_collapse_ws: "single_spaces (collapse_ws s)"
  unfolding single_spaces_def using collapse_ws_spaces collapse_ws_no_double by blast

lemma collapse_ws_single_spaces: "single_spaces t \<Longrightarrow> collapse_ws t = t"
proof (induction t rule: collapse_ws.induct)
  case 1
  then show ?case by simp
next
  case (2 c cs)
  then have ss: "single_spaces cs"
    by (auto simp: single_spaces_def no_double_space_Cons)
  show ?case
  proof (cases "is_js_space c")
    case True
    with "2.prems" have "c = CHR '' ''" and "cs = [] \<or> \<not> is_js_space (hd cs)"
      by (auto simp: single_spaces_def no_double_space_Cons)
    then have "dropWhile is_js_space cs = cs" by (cases cs) auto
    then show ?thesis using True "2.IH"(1) ss \<open>c = CHR '' ''\<close> by simp
  next
    case False
    then show ?thesis using "2.IH"(2) ss by simp
  qed
qed

lemma no_double_space_append:
  "no_double_space (xs @ ys) \<longleftrightarrow> no_double_space xs \<and> no_double_space ys \<and>
     (xs \<noteq> [] \<and> ys \<noteq> [] \<longrightarrow> \<not> (is_js_space (last xs) \<and> is_js_space (hd ys)))"
  by (induction xs rule: no_double_space.induct) (auto simp: no_double_space_Cons)

lemma no_double_space_rev: "no_double_space (rev t) \<longleftrightarrow> no_double_space t"
  by (induction t) (auto simp: no_double_space_append no_double_space_Cons last_rev)

lemma no_double_space_dropWhile: "no_double_space t \<Longrightarrow> no_double_space (dropWhile P t)"
  using no_double_space_append [of "takeWhile P t" "dropWhile P t"] by simp

lemma dropWhile_hd_stop: "t = [] \<or> \<not> P (hd t) \<Longrightarrow> dropWhile P t = t"
  by (cases t) auto

lemma js_trim_subset: "set (js_trim t) \<subseteq> set t"
  unfolding js_trim_def by (metis set_dropWhileD set_rev subsetI)

lemma js_trim_filter:
  "filter (\<lambda>c. \<not> is_js_space c) (js_trim t) = filter (\<lambda>c. \<not> is_js_space c) t"
  by (simp add: js_trim_def filter_dropWhile_same rev_filter [symmetric])

lemma js_trim_no_double: "no_double_space t \<Longrightarrow> no_double_space (js_trim t)"
  by (simp add: js_trim_def no_double_space_rev no_double_space_dropWhile)

lemma js_trim_ends:
  assumes "js_trim t \<noteq> []"
  shows "\<not> is_js_space (hd (js_trim t)) \<and> \<not> is_js_space (last (js_trim t))"
proof -
  let ?d = "dropWhile is_js_space t"
  let ?r = "dropWhile is_js_space (rev ?d)"
  have r: "?r \<noteq> []" using assms unfolding js_trim_def by (metis rev.simps(1))
  then have d: "?d \<noteq> []" by (metis dropWhile.simps(1) rev.simps(1))
  have "\<not> is_js_space (hd ?r)" using r by (rule hd_dropWhile)
  moreover have "last ?r = hd ?d"
  proof -
    have "last ?r = last (rev ?d)"
      using r by (metis last_appendR takeWhile_dropWhile_id)
    also have "\<dots> = hd ?d" using d by (simp add: last_rev)
    finally show ?thesis .
  qed
  moreover have "\<not> is_js_space (hd ?d)" using d by (rule hd_dropWhile)
  moreover have "hd (js_trim t) = last ?r" by (simp add: js_trim_def hd_rev)
  moreover have "last (js_trim t) = hd ?r" by (simp add: js_trim_def last_rev)
  ultimately show ?thesis by simp
qed

lemma js_trim_normal_form: "normal_form t \<Longrightarrow> js_trim t = t"
proof -
  assume nf: "normal_form t"
  then have "dropWhile is_js_space t = t"
    by (intro dropWhile_hd_stop) (auto simp: normal_form_def)
  moreover have "dropWhile is_js_space (rev t) = rev t"
    using nf by (intro dropWhile_hd_stop) (auto simp: normal_form_def hd_rev)
  ultimately show ?thesis by (simp add: js_trim_def)
qed

lemma single_spaces_js_trim: "single_spaces t \<Longrightarrow> single_spaces (js_trim t)"
  using js_trim_subset js_trim_no_double unfolding single_spaces_def by blast

text \<open>C13: the normaliser's output is in normal form: white space occurs only as single
  spaces, and never at either end.\<close>

theorem normalize_text_normal_form: "normal_form (normalize_text s)"
  unfolding normalize_text_unfold normal_form_def
  using single_spaces_js_trim [OF single_spaces_collapse_ws] js_trim_ends by blast

lemma normal_form_normalize_text [simp]: "normal_form (normalize_text s)"
  using single_spaces_js_trim [OF single_spaces_collapse_ws] js_trim_ends
  unfolding normalize_text_unfold normal_form_def by blast

lemma normalize_text_fixpoint_aux: "normal_form t \<Longrightarrow> normalize_text t = t"
  unfolding normalize_text_unfold
  using collapse_ws_single_spaces js_trim_normal_form normal_form_def by metis

text \<open>A string already in normal form is returned unchanged.\<close>

theorem normalize_text_fixpoint: "normal_form t \<Longrightarrow> normalize_text t = t"
  unfolding normalize_text_unfold
  using collapse_ws_single_spaces js_trim_normal_form normal_form_def by metis

theorem normalize_text_fixpoint_witness:
  "normal_form ''a b'' \<and> normalize_text ''a b'' = ''a b''"
proof -
  have nf: "normal_form ''a b''"
    by (simp add: normal_form_def single_spaces_def is_js_space_def)
  show ?thesis using nf normalize_text_fixpoint [OF nf] by simp
qed

text \<open>C14: normalising twice is normalising once.\<close>

theorem normalize_text_idempotent: "normalize_text (normalize_text s) = normalize_text s"
  by (rule normalize_text_fixpoint_aux [OF normal_form_normalize_text])

text \<open>C15: no character other than white space is altered, removed or reordered.\<close>

theorem normalize_text_keeps_text:
  "filter (\<lambda>c. \<not> is_js_space c) (normalize_text s) = filter (\<lambda>c. \<not> is_js_space c) s"
  by (simp add: normalize_text_unfold js_trim_filter collapse_ws_filter)

end
