(* ===== verification/OCRSide.thy ===== *)
theory OCRSide
  imports Normalize
begin

text \<open>
  The side-local half of the pipeline, in src/src/server.js: \<open>cleanOCRText\<close>
  normalises the text the OCR engine returned and runs two extractors on it,
  \<open>extractAadharNumber\<close> (a twelve-digit number, optionally grouped by four)
  and \<open>extractName\<close> (two capitalised words). Their patterns are the source's
  literals as \<open>regex\<close> values; the shape of what they return is proved by
  inverting the declarative semantics of \<^theory_text>\<open>RegExp_Sem\<close>.
\<close>

text \<open>The object \<open>cleanOCRText\<close> returns (lines 72--76); the Document
  Assembler reads it as \<open>front\<close> and \<open>back\<close>.\<close>

record recognized_side =
  aadharNumber :: "string option"
  name :: "string option"
  rawText :: string

text \<open>\<open>/\b\d{4}\s?\d{4}\s?\d{4}\b/\<close> (line 82).\<close>

definition aadhar_regex :: regex where
  "aadhar_regex = seqs [RWordB, count 4 (cls [CDigit]), opt (cls [CSpace]), count 4 (cls [CDigit]),
     opt (cls [CSpace]), count 4 (cls [CDigit]), RWordB]"

text \<open>\<open>/\s/g\<close> (line 84).\<close>

definition space_regex :: regex where
  "space_regex = cls [CSpace]"

text \<open>\<open>extractAadharNumber\<close> (lines 81--85): the first match, with its white
  space removed by \<open>match[0].replace(/\s/g, "")\<close>.\<close>

definition extractAadharNumber :: "string \<Rightarrow> string option" where
  "extractAadharNumber text =
     (case js_match False aadhar_regex text of
        None \<Rightarrow> None
      | Some r \<Rightarrow> Some (js_replace_all False space_regex [] (match_text text r)))"

text \<open>\<open>/[A-Z][a-z]+ [A-Z][a-z]+/\<close> (line 88).\<close>

definition name_regex :: regex where
  "name_regex = seqs [cls [CRange CHR ''A'' CHR ''Z''], plus (cls [CRange CHR ''a'' CHR ''z'']),
     RChar CHR '' '', cls [CRange CHR ''A'' CHR ''Z''], plus (cls [CRange CHR ''a'' CHR ''z''])]"

text \<open>\<open>extractName\<close> of server.js (lines 87--91): the whole first match.\<close>

definition extractName :: "string \<Rightarrow> string option" where
  "extractName text = map_option (match_text text) (js_match False name_regex text)"

text \<open>\<open>cleanOCRText\<close> (lines 69--79).\<close>

definition cleanOCRText :: "string \<Rightarrow> recognized_side" where
  "cleanOCRText text =
     (let cleanedText = normalize_text text
      in \<lparr>aadharNumber = extractAadharNumber cleanedText, name = extractName cleanedText,
          rawText = cleanedText\<rparr>)"

lemma cleanOCRText_fields [simp]:
  "aadharNumber (cleanOCRText t) = extractAadharNumber (normalize_text t)"
  "name (cleanOCRText t) = extractName (normalize_text t)"
  "rawText (cleanOCRText t) = normalize_text t"
  by (simp_all add: cleanOCRText_def Let_def)

subsection \<open>The document number\<close>

lemma char_test_digit_cs [simp]: "char_test False (cls [CDigit]) = Some is_digit"
  by (simp add: class_found_def class_mem_def)

lemma char_test_space_cs [simp]: "char_test False (cls [CSpace]) = Some is_js_space"
  by (simp add: class_found_def class_mem_def)

lemma digit_not_space: "is_digit c \<Longrightarrow> \<not> is_js_space c"
  by (auto simp: is_digit_def is_js_space_def)

lemma rmatch_digits:
  assumes "rmatch False t (count n (cls [CDigit])) (a, c) z"
  shows "z = (a + n, c) \<and> length (substr t a (a + n)) = n \<and> (\<forall>x \<in> set (substr t a (a + n)). is_digit x)"
proof -
  obtain k where k: "n \<le> k" "within (Some n) k" "z = (a + k, c)"
    "\<forall>j<k. a + j < length t \<and> is_digit (t ! (a + j))"
    using rmatch_rep_char [OF char_test_digit_cs assms] by auto
  then have "k = n" by (simp add: within_def)
  with k show ?thesis using substr_run [of n a t is_digit] by simp
qed

lemma rmatch_opt_space:
  assumes "rmatch False t (opt (cls [CSpace])) (a, c) z"
  shows "\<exists>k \<le> 1. z = (a + k, c) \<and> (\<forall>x \<in> set (substr t a (a + k)). is_js_space x)"
proof -
  obtain k where k: "within (Some 1) k" "z = (a + k, c)"
    "\<forall>j<k. a + j < length t \<and> is_js_space (t ! (a + j))"
    using rmatch_rep_char [OF char_test_space_cs assms] by auto
  then show ?thesis using substr_run [of k a t is_js_space] by (auto simp: within_def)
qed

lemma filter_digits: "\<forall>x \<in> set d. is_digit x \<Longrightarrow> filter (\<lambda>x. \<not> is_js_space x) d = d"
  by (auto simp: filter_id_conv digit_not_space)

lemma filter_spaces: "\<forall>x \<in> set w. is_js_space x \<Longrightarrow> filter (\<lambda>x. \<not> is_js_space x) w = []"
  by (auto simp: filter_empty_conv)

lemma aadhar_match_shape:
  assumes "rmatch False t aadhar_regex (p, c) (e, c')"
  shows "\<exists>a s1 b s2 d. substr t p e = a @ s1 @ b @ s2 @ d \<and> e = p + length (a @ s1 @ b @ s2 @ d) \<and>
    length a = 4 \<and> length b = 4 \<and> length d = 4 \<and> list_all is_digit (a @ b @ d) \<and>
    length s1 \<le> 1 \<and> length s2 \<le> 1 \<and> list_all is_js_space (s1 @ s2)"
proof -
  let ?D = "count 4 (cls [CDigit])" and ?S = "opt (cls [CSpace])"
  from assms obtain y0 where w0: "rmatch False t RWordB (p, c) y0"
    and r0: "rmatch False t (seqs [?D, ?S, ?D, ?S, ?D, RWordB]) y0 (e, c')"
    unfolding aadhar_regex_def by (blast dest: rmatch_seqs_Cons)
  from rmatch_wordb [OF w0] have y0: "y0 = (p, c)" by simp
  from r0 y0 obtain y1 where d1: "rmatch False t ?D (p, c) y1"
    and r1: "rmatch False t (seqs [?S, ?D, ?S, ?D, RWordB]) y1 (e, c')"
    by (blast dest: rmatch_seqs_Cons)
  from rmatch_digits [OF d1] have y1: "y1 = (p + 4, c)"
    and D1: "length (substr t p (p + 4)) = 4" "\<forall>x \<in> set (substr t p (p + 4)). is_digit x" by auto
  from r1 y1 obtain y2 where s1: "rmatch False t ?S (p + 4, c) y2"
    and r2: "rmatch False t (seqs [?D, ?S, ?D, RWordB]) y2 (e, c')"
    by (blast dest: rmatch_seqs_Cons)
  from rmatch_opt_space [OF s1] obtain k1 where k1: "k1 \<le> 1" "y2 = (p + 4 + k1, c)"
    and S1: "\<forall>x \<in> set (substr t (p + 4) (p + 4 + k1)). is_js_space x" by blast
  from r2 k1(2) obtain y3 where d2: "rmatch False t ?D (p + 4 + k1, c) y3"
    and r3: "rmatch False t (seqs [?S, ?D, RWordB]) y3 (e, c')"
    by (blast dest: rmatch_seqs_Cons)
  from rmatch_digits [OF d2] have y3: "y3 = (p + 4 + k1 + 4, c)"
    and D2: "length (substr t (p + 4 + k1) (p + 4 + k1 + 4)) = 4"
      "\<forall>x \<in> set (substr t (p + 4 + k1) (p + 4 + k1 + 4)). is_digit x" by auto
  from r3 y3 obtain y4 where s2: "rmatch False t ?S (p + 4 + k1 + 4, c) y4"
    and r4: "rmatch False t (seqs [?D, RWordB]) y4 (e, c')"
    by (blast dest: rmatch_seqs_Cons)
  from rmatch_opt_space [OF s2] obtain k2 where k2: "k2 \<le> 1" "y4 = (p + 4 + k1 + 4 + k2, c)"
    and S2: "\<forall>x \<in> set (substr t (p + 4 + k1 + 4) (p + 4 + k1 + 4 + k2)). is_js_space x" by blast
  from r4 k2(2) obtain y5 where d3: "rmatch False t ?D (p + 4 + k1 + 4 + k2, c) y5"
    and r5: "rmatch False t (seqs [RWordB]) y5 (e, c')"
    by (blast dest: rmatch_seqs_Cons)
  from rmatch_digits [OF d3] have y5: "y5 = (p + 4 + k1 + 4 + k2 + 4, c)"
    and D3: "length (substr t (p + 4 + k1 + 4 + k2) (p + 4 + k1 + 4 + k2 + 4)) = 4"
      "\<forall>x \<in> set (substr t (p + 4 + k1 + 4 + k2) (p + 4 + k1 + 4 + k2 + 4)). is_digit x" by auto
  from r5 y5 have e: "e = p + 4 + k1 + 4 + k2 + 4"
    using rmatch_wordb [of False t "(p + 4 + k1 + 4 + k2 + 4, c)" "(e, c')"] by simp
  have in_t: "p + 4 + k1 + 4 + k2 + 4 \<le> length t"
    using D3(1) by (simp add: substr_def)
  let ?a = "substr t p (p + 4)" and ?s1 = "substr t (p + 4) (p + 4 + k1)"
    and ?b = "substr t (p + 4 + k1) (p + 4 + k1 + 4)"
    and ?s2 = "substr t (p + 4 + k1 + 4) (p + 4 + k1 + 4 + k2)"
    and ?d = "substr t (p + 4 + k1 + 4 + k2) (p + 4 + k1 + 4 + k2 + 4)"
  have split: "substr t p e = ?a @ ?s1 @ ?b @ ?s2 @ ?d"
    unfolding e by (simp add: substr_append [symmetric])
  have ls: "length ?s1 = k1" "length ?s2 = k2"
    using in_t by (simp_all add: length_substr)
  have "substr t p e = ?a @ ?s1 @ ?b @ ?s2 @ ?d \<and> e = p + length (?a @ ?s1 @ ?b @ ?s2 @ ?d) \<and>
    length ?a = 4 \<and> length ?b = 4 \<and> length ?d = 4 \<and> list_all is_digit (?a @ ?b @ ?d) \<and>
    length ?s1 \<le> 1 \<and> length ?s2 \<le> 1 \<and> list_all is_js_space (?s1 @ ?s2)"
    using split ls D1 D2 D3 S1 S2 k1(1) k2(1) e by (simp add: list_all_iff ball_Un)
  then show ?thesis by blast
qed

lemma aadhar_match_digits:
  assumes "rmatch False t aadhar_regex (p, c) (e, c')"
  shows "length (filter (\<lambda>x. \<not> is_js_space x) (substr t p e)) = 12 \<and>
         (\<forall>x \<in> set (filter (\<lambda>x. \<not> is_js_space x) (substr t p e)). is_digit x)"
proof -
  obtain a s1 b s2 d where sh: "substr t p e = a @ s1 @ b @ s2 @ d" "length a = 4" "length b = 4"
      "length d = 4" "list_all is_digit (a @ b @ d)" "list_all is_js_space (s1 @ s2)"
    using aadhar_match_shape [OF assms] by blast
  moreover have "\<forall>x \<in> set a. is_digit x" "\<forall>x \<in> set b. is_digit x" "\<forall>x \<in> set d. is_digit x"
    "\<forall>x \<in> set s1. is_js_space x" "\<forall>x \<in> set s2. is_js_space x"
    using sh(5,6) by (simp_all add: list_all_iff)
  ultimately have "filter (\<lambda>x. \<not> is_js_space x) (substr t p e) = a @ b @ d"
    by (simp add: filter_digits filter_spaces)
  with sh show ?thesis by (simp add: list_all_iff)
qed

lemma concat_map_filter:
  "concat (map (\<lambda>c. if P c then [] else [c]) xs) = filter (\<lambda>c. \<not> P c) xs"
  by (induction xs) auto

lemma replace_space_filter:
  "js_replace_all False space_regex [] u = filter (\<lambda>x. \<not> is_js_space x) u"
  by (simp add: js_replace_all_def space_regex_def replace_from_char [OF char_test_space_cs]
      concat_map_filter)

lemma wf_aadhar_regex [simp]: "wf_regex aadhar_regex"
  by (simp add: aadhar_regex_def mn_le_mx_def)

lemma aadhar_number_digits:
  "extractAadharNumber t = Some n \<Longrightarrow> length n = 12 \<and> (\<forall>x \<in> set n. is_digit x)"
proof -
  assume res: "extractAadharNumber t = Some n"
  then obtain p e c where ex: "exec_from False t aadhar_regex 0 = Some (p, (e, c))"
    and n: "n = filter (\<lambda>x. \<not> is_js_space x) (substr t p e)"
    by (auto simp: extractAadharNumber_def js_match_def replace_space_filter match_text_def
        split: option.splits)
  have "rmatch False t aadhar_regex (p, no_caps) (e, c)"
    using exec_from_sound [OF wf_aadhar_regex ex] .
  then show ?thesis using aadhar_match_digits n by blast
qed

text \<open>C3: a document number the OCR side extracts is the text that
  \<open>str.match\<close> found, with its grouping spaces removed: that text is four digits, at
  most one white-space character, four digits, at most one white-space character and
  four digits, and the number is its twelve digits in order.\<close>

theorem extractAadharNumber_digits:
  "extractAadharNumber t = Some n \<Longrightarrow>
   \<exists>p cap a s1 b s2 d.
     js_match False aadhar_regex t = Some (p, (p + length (a @ s1 @ b @ s2 @ d), cap)) \<and>
     substr t p (p + length (a @ s1 @ b @ s2 @ d)) = a @ s1 @ b @ s2 @ d \<and>
     n = a @ b @ d \<and> length a = 4 \<and> length b = 4 \<and> length d = 4 \<and>
     list_all is_digit (a @ b @ d) \<and> length s1 \<le> 1 \<and> length s2 \<le> 1 \<and>
     list_all is_js_space (s1 @ s2)"
proof -
  assume res: "extractAadharNumber t = Some n"
  then obtain p e c where ex: "exec_from False t aadhar_regex 0 = Some (p, (e, c))"
    and n: "n = js_replace_all False space_regex [] (substr t p e)"
    by (auto simp: extractAadharNumber_def js_match_def match_text_def split: option.splits)
  have "rmatch False t aadhar_regex (p, no_caps) (e, c)"
    using exec_from_sound [OF wf_aadhar_regex ex] .
  note shape = aadhar_match_shape [OF this]
  obtain a s1 b s2 d where sh: "substr t p e = a @ s1 @ b @ s2 @ d"
      "e = p + length (a @ s1 @ b @ s2 @ d)" "length a = 4" "length b = 4" "length d = 4"
      "list_all is_digit (a @ b @ d)" "length s1 \<le> 1" "length s2 \<le> 1"
      "list_all is_js_space (s1 @ s2)"
    using shape by blast
  have "\<forall>x \<in> set a. is_digit x" "\<forall>x \<in> set b. is_digit x" "\<forall>x \<in> set d. is_digit x"
    "\<forall>x \<in> set s1. is_js_space x" "\<forall>x \<in> set s2. is_js_space x"
    using sh(6,9) by (simp_all add: list_all_iff)
  then have "n = a @ b @ d"
    using n sh(1) by (simp add: replace_space_filter filter_digits filter_spaces)
  moreover have "js_match False aadhar_regex t = Some (p, (p + length (a @ s1 @ b @ s2 @ d), c))"
    using ex sh(2) by (simp add: js_match_def)
  ultimately show ?thesis
    using sh(1,2) sh(3-9)
    by (intro exI [of _ p] exI [of _ c] exI [of _ a] exI [of _ s1] exI [of _ b] exI [of _ s2]
        exI [of _ d]) simp
qed

theorem extractAadharNumber_digits_witness:
  "extractAadharNumber ''1234 5678 9012'' = Some ''123456789012'' \<and>
   (\<exists>p cap a s1 b s2 d.
     js_match False aadhar_regex ''1234 5678 9012'' = Some (p, (p + length (a @ s1 @ b @ s2 @ d), cap)) \<and>
     substr ''1234 5678 9012'' p (p + length (a @ s1 @ b @ s2 @ d)) = a @ s1 @ b @ s2 @ d \<and>
     ''123456789012'' = a @ b @ d \<and> length a = 4 \<and> length b = 4 \<and> length d = 4 \<and>
     list_all is_digit (a @ b @ d) \<and> length s1 \<le> 1 \<and> length s2 \<le> 1 \<and>
     list_all is_js_space (s1 @ s2))"
proof -
  have ev: "extractAadharNumber ''1234 5678 9012'' = Some ''123456789012''" by code_simp
  show ?thesis by (rule conjI [OF ev extractAadharNumber_digits [OF ev]])
qed

lemma extractAadharNumber_nonempty: "extractAadharNumber t = Some n \<Longrightarrow> n \<noteq> []"
  using aadhar_number_digits by fastforce

subsection \<open>The inline name\<close>

lemma class_mem_upper: "class_mem [CRange CHR ''A'' CHR ''Z''] c \<longleftrightarrow> is_upper c"
  by (simp add: class_mem_def is_upper_def)

lemma class_mem_lower: "class_mem [CRange CHR ''a'' CHR ''z''] c \<longleftrightarrow> is_lower c"
  by (simp add: class_mem_def is_lower_def)

lemma wf_name_regex [simp]: "wf_regex name_regex"
  by (simp add: name_regex_def mn_le_mx_def)

lemma rmatch_upper:
  "rmatch False t (cls [CRange CHR ''A'' CHR ''Z'']) (a, c) z \<Longrightarrow>
   z = (Suc a, c) \<and> a < length t \<and> is_upper (t ! a)"
  using rmatch_char_inv [OF char_test_cls [of "[CRange CHR ''A'' CHR ''Z'']"], of t "(a, c)" z]
  by (simp add: class_mem_upper)

lemma rmatch_lowers:
  assumes "rmatch False t (plus (cls [CRange CHR ''a'' CHR ''z''])) (a, c) z"
  shows "\<exists>n \<ge> 1. z = (a + n, c) \<and> a + n \<le> length t \<and> (\<forall>x \<in> set (substr t a (a + n)). is_lower x)"
proof -
  obtain n where n: "1 \<le> n" "z = (a + n, c)" "\<forall>j<n. a + j < length t \<and> is_lower (t ! (a + j))"
    using rmatch_rep_char [OF char_test_cls assms] by (auto simp: class_mem_lower)
  then have "a + n \<le> length t" by (auto dest: spec [of _ "n - 1"])
  with n show ?thesis using substr_run [of n a t is_lower] by auto
qed

lemma substr_Cons: "a < length t \<Longrightarrow> a \<le> b \<Longrightarrow> Suc a \<le> b \<Longrightarrow> substr t a b = t ! a # substr t (Suc a) b"
  by (simp add: substr_def Cons_nth_drop_Suc [symmetric] take_Suc_Cons [symmetric] Suc_diff_Suc)

lemma name_match_shape:
  "extractName t = Some n \<Longrightarrow>
   \<exists>u1 l1 u2 l2. n = u1 # l1 @ CHR '' '' # u2 # l2 \<and> is_upper u1 \<and> is_upper u2 \<and>
     l1 \<noteq> [] \<and> l2 \<noteq> [] \<and> (\<forall>x \<in> set (l1 @ l2). is_lower x)"
proof -
  assume res: "extractName t = Some n"
  let ?U = "cls [CRange CHR ''A'' CHR ''Z'']" and ?L = "plus (cls [CRange CHR ''a'' CHR ''z''])"
  from res obtain p e cap where ex: "exec_from False t name_regex 0 = Some (p, (e, cap))"
    and n: "n = substr t p e"
    by (auto simp: extractName_def js_match_def match_text_def)
  have "rmatch False t name_regex (p, no_caps) (e, cap)"
    using exec_from_sound [OF wf_name_regex ex] .
  then obtain y1 where u1: "rmatch False t ?U (p, no_caps) y1"
    and r1: "rmatch False t (seqs [?L, RChar CHR '' '', ?U, ?L]) y1 (e, cap)"
    unfolding name_regex_def by (blast dest: rmatch_seqs_Cons)
  from rmatch_upper [OF u1] have y1: "y1 = (Suc p, no_caps)" and U1: "p < length t" "is_upper (t ! p)"
    by auto
  from r1 [unfolded y1] obtain y2 where l1: "rmatch False t ?L (Suc p, no_caps) y2"
    and r2: "rmatch False t (seqs [RChar CHR '' '', ?U, ?L]) y2 (e, cap)"
    by (blast dest: rmatch_seqs_Cons)
  from rmatch_lowers [OF l1] obtain k1 where k1: "1 \<le> k1" "y2 = (Suc p + k1, no_caps)"
    "\<forall>x \<in> set (substr t (Suc p) (Suc p + k1)). is_lower x" by blast
  from r2 [unfolded k1(2)] obtain y3 where sp: "rmatch False t (RChar CHR '' '') (Suc p + k1, no_caps) y3"
    and r3: "rmatch False t (seqs [?U, ?L]) y3 (e, cap)"
    by (blast dest: rmatch_seqs_Cons)
  from rmatch_RChar [OF sp] have y3: "y3 = (Suc (Suc p + k1), no_caps)"
    and S: "Suc p + k1 < length t" "t ! (Suc p + k1) = CHR '' ''" by auto
  from r3 [unfolded y3] obtain y4 where u2: "rmatch False t ?U (Suc (Suc p + k1), no_caps) y4"
    and r4: "rmatch False t (seqs [?L]) y4 (e, cap)"
    by (blast dest: rmatch_seqs_Cons)
  from rmatch_upper [OF u2] have y4: "y4 = (Suc (Suc (Suc p + k1)), no_caps)"
    and U2: "Suc (Suc p + k1) < length t" "is_upper (t ! Suc (Suc p + k1))" by auto
  from r4 y4 have l2: "rmatch False t ?L (Suc (Suc (Suc p + k1)), no_caps) (e, cap)" by simp
  from rmatch_lowers [OF l2] obtain k2 where k2: "1 \<le> k2" "e = Suc (Suc (Suc p + k1)) + k2"
    "Suc (Suc (Suc p + k1)) + k2 \<le> length t"
    "\<forall>x \<in> set (substr t (Suc (Suc (Suc p + k1))) (Suc (Suc (Suc p + k1)) + k2)). is_lower x" by auto
  let ?l1 = "substr t (Suc p) (Suc p + k1)" and ?l2 = "substr t (Suc (Suc (Suc p + k1))) e"
  have e1: "substr t p e = t ! p # substr t (Suc p) e"
    using U1 k2 by (intro substr_Cons) auto
  have e2: "substr t (Suc p) e = ?l1 @ substr t (Suc p + k1) e"
    using k2 by (intro substr_append) auto
  have e3: "substr t (Suc p + k1) e = t ! (Suc p + k1) # substr t (Suc (Suc p + k1)) e"
    using S k2 by (intro substr_Cons) auto
  have e4: "substr t (Suc (Suc p + k1)) e = t ! Suc (Suc p + k1) # ?l2"
    using U2 k2 by (intro substr_Cons) auto
  have "substr t p e = t ! p # ?l1 @ t ! (Suc p + k1) # t ! Suc (Suc p + k1) # ?l2"
    by (simp only: e1 e2 e3 e4)
  moreover have "?l1 \<noteq> []" "?l2 \<noteq> []" using k1 k2 S by (simp_all add: substr_def)
  ultimately show ?thesis using n U1 U2 S k1(3) k2(4) k2(2)
    by (intro exI [of _ "t ! p"] exI [of _ ?l1] exI [of _ "t ! Suc (Suc p + k1)"] exI [of _ ?l2])
      auto
qed

text \<open>C7: a name the OCR side extracts inline is two capitalised words, an upper-case
  letter and at least one lower-case letter each, joined by one space.\<close>

theorem extractName_shape:
  "extractName t = Some n \<Longrightarrow>
   \<exists>u1 l1 u2 l2. n = u1 # l1 @ CHR '' '' # u2 # l2 \<and> is_upper u1 \<and> is_upper u2 \<and>
     l1 \<noteq> [] \<and> l2 \<noteq> [] \<and> (\<forall>x \<in> set (l1 @ l2). is_lower x)"
  by (rule name_match_shape)

theorem extractName_shape_witness:
  "extractName ''Ravi Kumar'' = Some ''Ravi Kumar'' \<and>
   (\<exists>u1 l1 u2 l2. ''Ravi Kumar'' = u1 # l1 @ CHR '' '' # u2 # l2 \<and> is_upper u1 \<and> is_upper u2 \<and>
     l1 \<noteq> [] \<and> l2 \<noteq> [] \<and> (\<forall>x \<in> set (l1 @ l2). is_lower x))"
proof -
  have ev: "extractName ''Ravi Kumar'' = Some ''Ravi Kumar''" by code_simp
  show ?thesis using ev extractName_shape [OF ev] by blast
qed

lemma extractName_nonempty: "extractName t = Some n \<Longrightarrow> n \<noteq> []"
  using name_match_shape by fastforce

end
