(* ===== verification/Details.thy ===== *)
theory Details
  imports OCRSide
begin

text \<open>
  The Document Assembler and the field extractors of
  src/src/utils/DetailsExtraction.js: \<open>extractAadharDetails\<close> merges the two
  recognised sides, taking the document number from the front or else the back,
  the name from the front's inline match or else its \<open>Name:\<close> label, date of
  birth and gender from the front text and address and postal code from the back
  text. Each extractor is its pattern literal (a \<open>regex\<close> value) and the
  post-processing the function applies to the match. The \<open>console.log\<close> calls
  of \<open>extractAddress\<close> do not affect its result; they are modelled in
  \<open>Logging\<close>.
\<close>

text \<open>The object \<open>details\<close> (lines 2--9); \<open>None\<close> is \<open>null\<close>.\<close>

record aadhar_details =
  det_aadharNumber :: "string option"
  det_name :: "string option"
  dob :: "string option"
  gender :: "string option"
  address :: "string option"
  pin :: "string option"

text \<open>\<open>/Name:\s?([A-Za-z\s]+)/\<close> (line 15).\<close>

definition name_label_regex :: regex where
  "name_label_regex = seqs [lit ''Name:'', opt (cls [CSpace]),
     RGroup 1 (plus (cls [CRange CHR ''A'' CHR ''Z'', CRange CHR ''a'' CHR ''z'', CSpace]))]"

text \<open>\<open>extractName(rawText, name)\<close> (lines 13--17).\<close>

definition extractName_details :: "string \<Rightarrow> string option \<Rightarrow> string option" where
  "extractName_details raw nm =
     (if js_truthy nm then nm
      else (case js_match False name_label_regex raw of
              None \<Rightarrow> None
            | Some r \<Rightarrow> map_option js_trim (group_text raw r 1)))"

text \<open>\<open>/DOB[:\s~]*(\d{2}\/\d{2}\/\d{4})/\<close> (line 20).\<close>

definition dob_regex :: regex where
  "dob_regex = seqs [lit ''DOB'', star (cls [CChar CHR '':'', CSpace, CChar CHR ''~'']),
     RGroup 1 (seqs [count 2 (cls [CDigit]), RChar CHR ''/'', count 2 (cls [CDigit]),
                     RChar CHR ''/'', count 4 (cls [CDigit])])]"

text \<open>\<open>extractDOB\<close> (lines 18--22).\<close>

definition extractDOB :: "string \<Rightarrow> string option" where
  "extractDOB raw =
     (case js_match False dob_regex raw of None \<Rightarrow> None | Some r \<Rightarrow> group_text raw r 1)"

text \<open>\<open>/\b(Male|Female|Other)\b/i\<close> (line 25); the \<open>i\<close> flag is the
  \<open>True\<close> passed to \<open>js_match\<close>.\<close>

definition gender_regex :: regex where
  "gender_regex = seqs [RWordB, RGroup 1 (RAlt (lit ''Male'') (RAlt (lit ''Female'') (lit ''Other''))),
     RWordB]"

text \<open>\<open>extractGender\<close> (lines 24--27).\<close>

definition extractGender :: "string \<Rightarrow> string option" where
  "extractGender raw =
     (case js_match True gender_regex raw of None \<Rightarrow> None | Some r \<Rightarrow> group_text raw r 1)"

text \<open>\<open>/Addresss\/[^\w]*(\w[\w\s]+).*?wa:\s([^,]+,[^,]+)/\<close> (line 31).\<close>

definition address_regex :: regex where
  "address_regex = seqs [lit ''Addresss/'', star (ncls [CWord]),
     RGroup 1 (RSeq (cls [CWord]) (plus (cls [CWord, CSpace]))), lazy_star RDot, lit ''wa:'',
     cls [CSpace], RGroup 2 (seqs [plus (ncls [CChar CHR '','']), RChar CHR '','', plus (ncls [CChar CHR '',''])])]"

text \<open>\<open>extractAddress\<close> (lines 29--46): both groups trimmed and joined by
  \<open>", "\<close>.\<close>

definition extractAddress :: "string \<Rightarrow> string option" where
  "extractAddress raw =
     (case js_match False address_regex raw of
        None \<Rightarrow> None
      | Some r \<Rightarrow>
          (case (group_text raw r 1, group_text raw r 2) of
             (Some nm, Some loc) \<Rightarrow> Some (js_trim nm @ '', '' @ js_trim loc)
           | _ \<Rightarrow> None))"

text \<open>\<open>/\b\d{6}\b/\<close> (line 49).\<close>

definition pin_regex :: regex where
  "pin_regex = seqs [RWordB, count 6 (cls [CDigit]), RWordB]"

text \<open>\<open>extractPin\<close> (lines 48--51): the whole match.\<close>

definition extractPin :: "string \<Rightarrow> string option" where
  "extractPin raw = map_option (match_text raw) (js_match False pin_regex raw)"

text \<open>\<open>extractAadharDetails(front, back)\<close> (lines 1--11);
  \<open>front.aadharNumber || back.aadharNumber || null\<close> is two \<open>js_or\<close>.\<close>

definition extractAadharDetails :: "recognized_side \<Rightarrow> recognized_side \<Rightarrow> aadhar_details" where
  "extractAadharDetails front back =
     \<lparr>det_aadharNumber = js_or (js_or (aadharNumber front) (aadharNumber back)) None,
      det_name = extractName_details (rawText front) (name front),
      dob = extractDOB (rawText front),
      gender = extractGender (rawText front),
      address = extractAddress (rawText back),
      pin = extractPin (rawText back)\<rparr>"

subsection \<open>What the extractors return\<close>

definition date_shape :: "string \<Rightarrow> bool" where
  "date_shape d \<longleftrightarrow> length d = 10 \<and> (\<forall>i \<in> {0, 1, 3, 4, 6, 7, 8, 9}. is_digit (d ! i)) \<and>
     d ! 2 = CHR ''/'' \<and> d ! 5 = CHR ''/''"

lemma wf_dob_regex [simp]: "wf_regex dob_regex"
  by (simp add: dob_regex_def mn_le_mx_def)

lemma dob_date_part:
  assumes "rmatch False t (seqs [count 2 (cls [CDigit]), RChar CHR ''/'', count 2 (cls [CDigit]),
                     RChar CHR ''/'', count 4 (cls [CDigit])]) (a, c) (b, c')"
  shows "b = a + 10 \<and> a + 10 \<le> length t \<and> date_shape (substr t a (a + 10))"
proof -
  let ?D = "\<lambda>n. count n (cls [CDigit])"
  from assms obtain y1 where d1: "rmatch False t (?D 2) (a, c) y1"
    and r1: "rmatch False t (seqs [RChar CHR ''/'', ?D 2, RChar CHR ''/'', ?D 4]) y1 (b, c')"
    by (blast dest: rmatch_seqs_Cons)
  from rmatch_count [OF char_test_digit_cs d1] have y1: "y1 = (a + 2, c)"
    and D1: "\<forall>j<2. a + j < length t \<and> is_digit (t ! (a + j))" by auto
  from r1 y1 obtain y2 where s1: "rmatch False t (RChar CHR ''/'') (a + 2, c) y2"
    and r2: "rmatch False t (seqs [?D 2, RChar CHR ''/'', ?D 4]) y2 (b, c')"
    by (blast dest: rmatch_seqs_Cons)
  from rmatch_RChar [OF s1] have y2: "y2 = (a + 3, c)" and S1: "t ! (a + 2) = CHR ''/''" by auto
  from r2 y2 obtain y3 where d2: "rmatch False t (?D 2) (a + 3, c) y3"
    and r3: "rmatch False t (seqs [RChar CHR ''/'', ?D 4]) y3 (b, c')"
    by (blast dest: rmatch_seqs_Cons)
  from rmatch_count [OF char_test_digit_cs d2] have y3: "y3 = (a + 5, c)"
    and D2: "\<forall>j<2. a + 3 + j < length t \<and> is_digit (t ! (a + 3 + j))" by auto
  from r3 y3 obtain y4 where s2: "rmatch False t (RChar CHR ''/'') (a + 5, c) y4"
    and r4: "rmatch False t (seqs [?D 4]) y4 (b, c')"
    by (blast dest: rmatch_seqs_Cons)
  from rmatch_RChar [OF s2] have y4: "y4 = (a + 6, c)" and S2: "t ! (a + 5) = CHR ''/''" by auto
  from r4 y4 have d3: "rmatch False t (?D 4) (a + 6, c) (b, c')" by simp
  from rmatch_count [OF char_test_digit_cs d3] have b: "b = a + 10"
    and D3: "\<forall>j<4. a + 6 + j < length t \<and> is_digit (t ! (a + 6 + j))" by auto
  have len: "a + 10 \<le> length t" using D3 by (auto dest: spec [of _ 3])
  have "is_digit (substr t a (a + 10) ! i)" if "i \<in> {0, 1, 3, 4, 6, 7, 8, 9}" for i
  proof -
    have "i < 10" using that by auto
    then have "substr t a (a + 10) ! i = t ! (a + i)" using len by (simp add: substr_nth)
    moreover have "is_digit (t ! (a + i))"
      using that D1 D2 D3 by (auto dest: spec [of _ 0] spec [of _ 1] spec [of _ 2] spec [of _ 3]
        simp: add.assoc)
    ultimately show ?thesis by simp
  qed
  moreover have "substr t a (a + 10) ! 2 = CHR ''/''" "substr t a (a + 10) ! 5 = CHR ''/''"
    using len S1 S2 by (simp_all add: substr_nth)
  ultimately show ?thesis using b len by (simp add: date_shape_def length_substr)
qed

text \<open>C5: a date of birth the extractor returns has the shape \<open>DD/MM/YYYY\<close>:
  ten characters, digits but for the slashes at positions 2 and 5.\<close>

theorem extractDOB_shape: "extractDOB t = Some d \<Longrightarrow> date_shape d"
proof -
  assume res: "extractDOB t = Some d"
  let ?sep = "star (cls [CChar CHR '':'', CSpace, CChar CHR ''~''])"
  let ?date = "seqs [count 2 (cls [CDigit]), RChar CHR ''/'', count 2 (cls [CDigit]),
                     RChar CHR ''/'', count 4 (cls [CDigit])]"
  from res obtain p e cap where ex: "exec_from False t dob_regex 0 = Some (p, (e, cap))"
    and d: "group_text t (p, (e, cap)) 1 = Some d"
    by (auto simp: extractDOB_def js_match_def split: option.splits)
  have "rmatch False t dob_regex (p, no_caps) (e, cap)"
    using exec_from_sound [OF wf_dob_regex ex] .
  then obtain y1 where l: "rmatch False t (lit ''DOB'') (p, no_caps) y1"
    and r1: "rmatch False t (seqs [?sep, RGroup 1 ?date]) y1 (e, cap)"
    unfolding dob_regex_def by (blast dest: rmatch_seqs_Cons)
  from rmatch_lit [OF l] have y1: "y1 = (p + 3, no_caps)" by simp
  from r1 [unfolded y1] obtain y2 where st: "rmatch False t ?sep (p + 3, no_caps) y2"
    and r2': "rmatch False t (seqs [RGroup 1 ?date]) y2 (e, cap)"
    by (blast dest: rmatch_seqs_Cons)
  then have r2: "rmatch False t (RGroup 1 ?date) y2 (e, cap)" by simp
  from rmatch_rep_char [OF char_test_cls st] obtain k where y2: "y2 = (p + 3 + k, no_caps)"
    by auto
  from rmatch_group [OF r2] obtain y where dp: "rmatch False t ?date y2 y"
    and ecap: "(e, cap) = (fst y, (snd y)(1 := Some (fst y2, fst y)))" by blast
  obtain b c' where yb: "y = (b, c')" by (cases y)
  from dob_date_part [of t "p + 3 + k" no_caps b c'] dp y2 yb
  have "b = p + 3 + k + 10" "date_shape (substr t (p + 3 + k) (p + 3 + k + 10))" by auto
  moreover have "d = substr t (p + 3 + k) b"
    using d ecap yb y2 by (simp add: group_text_at)
  ultimately show "date_shape d" by simp
qed

theorem extractDOB_shape_witness:
  "extractDOB ''DOB: 05/06/1990'' = Some ''05/06/1990'' \<and> date_shape ''05/06/1990''"
proof -
  have ev: "extractDOB ''DOB: 05/06/1990'' = Some ''05/06/1990''" by code_simp
  show ?thesis using ev extractDOB_shape [OF ev] by simp
qed

lemma wf_pin_regex [simp]: "wf_regex pin_regex"
  by (simp add: pin_regex_def mn_le_mx_def)

lemma digit_word: "is_digit c \<Longrightarrow> is_word_char c"
  by (simp add: is_word_char_def)

text \<open>C6: a postal code the extractor returns is six digits standing alone in
  the text: no word character immediately before or after them.\<close>

theorem extractPin_standalone:
  "extractPin t = Some q \<Longrightarrow>
   \<exists>p. q = substr t p (p + 6) \<and> p + 6 \<le> length t \<and> (\<forall>x \<in> set q. is_digit x) \<and>
       \<not> word_before t p \<and> \<not> word_at t (p + 6)"
proof -
  assume res: "extractPin t = Some q"
  let ?D = "count 6 (cls [CDigit])"
  from res obtain p e cap where ex: "exec_from False t pin_regex 0 = Some (p, (e, cap))"
    and q: "q = substr t p e"
    by (auto simp: extractPin_def js_match_def match_text_def)
  have "rmatch False t pin_regex (p, no_caps) (e, cap)"
    using exec_from_sound [OF wf_pin_regex ex] .
  then obtain y0 where w0: "rmatch False t RWordB (p, no_caps) y0"
    and r0: "rmatch False t (seqs [?D, RWordB]) y0 (e, cap)"
    unfolding pin_regex_def by (blast dest: rmatch_seqs_Cons)
  from rmatch_wordb [OF w0] have y0: "y0 = (p, no_caps)" and b0: "word_before t p \<noteq> word_at t p"
    by auto
  from r0 [unfolded y0] obtain y1 where d: "rmatch False t ?D (p, no_caps) y1"
    and r1: "rmatch False t (seqs [RWordB]) y1 (e, cap)"
    by (blast dest: rmatch_seqs_Cons)
  from rmatch_count [OF char_test_digit_cs d] have y1: "y1 = (p + 6, no_caps)"
    and D: "\<forall>j<6. p + j < length t \<and> is_digit (t ! (p + j))" by auto
  from r1 y1 rmatch_wordb [of False t "(p + 6, no_caps)" "(e, cap)"]
  have e: "e = p + 6" and b1: "word_before t (p + 6) \<noteq> word_at t (p + 6)" by auto
  have len: "p + 6 \<le> length t" using D by (auto dest: spec [of _ 5])
  have "word_at t p" using D digit_word by (auto simp: word_at_def dest: spec [of _ 0])
  moreover have "word_before t (p + 6)"
  proof -
    have "is_digit (t ! (p + 5))" using D spec [OF D, of 5] by simp
    then have "is_digit (t ! (5 + p))" by (simp add: add.commute)
    then show ?thesis using len digit_word by (simp add: word_before_def)
  qed
  moreover have "\<forall>x \<in> set q. is_digit x"
    using substr_run [of 6 p t is_digit] D q e by simp
  ultimately show ?thesis using b0 b1 q e len by auto
qed

theorem extractPin_standalone_witness:
  "extractPin ''560001'' = Some ''560001'' \<and>
   (\<exists>p. ''560001'' = substr ''560001'' p (p + 6) \<and> p + 6 \<le> length ''560001'' \<and>
       (\<forall>x \<in> set ''560001''. is_digit x) \<and>
       \<not> word_before ''560001'' p \<and> \<not> word_at ''560001'' (p + 6))"
proof -
  have ev: "extractPin ''560001'' = Some ''560001''" by code_simp
  show ?thesis using ev extractPin_standalone [OF ev] by blast
qed

definition ci_eq :: "string \<Rightarrow> string \<Rightarrow> bool" where
  "ci_eq u w \<longleftrightarrow> list_all2 (\<lambda>a b. canon a = canon b) u w"

lemma wf_gender_regex [simp]: "wf_regex gender_regex"
  by (simp add: gender_regex_def)

lemma lit_at_ci: "lit_at True t a w \<Longrightarrow> ci_eq (substr t a (a + length w)) w"
  by (simp add: lit_at_def ci_eq_def substr_def canonicalize_def)

lemma rmatch_lit_ci:
  "rmatch True t (lit w) (a, c) (b, c') \<Longrightarrow> b = a + length w \<and> ci_eq (substr t a b) w"
  using rmatch_lit [of True t w "(a, c)" "(b, c')"] lit_at_ci [of t a w] by simp

lemma rmatch_gender_words:
  assumes "rmatch True t (RAlt (lit ''Male'') (RAlt (lit ''Female'') (lit ''Other''))) (a, c) (b, c')"
  shows "\<exists>w \<in> {''Male'', ''Female'', ''Other''}. b = a + length w \<and> ci_eq (substr t a b) w"
proof -
  from assms consider (m) "rmatch True t (lit ''Male'') (a, c) (b, c')"
    | (f) "rmatch True t (lit ''Female'') (a, c) (b, c')"
    | (o) "rmatch True t (lit ''Other'') (a, c) (b, c')"
    by (elim rmatch_AltE) (simp_all del: lit.simps)
  then show ?thesis by cases (blast dest: rmatch_lit_ci)+
qed

lemma substr_span:
  "substr t p b \<noteq> [] \<Longrightarrow>
   p + length (substr t p b) \<le> length t \<and> substr t p (p + length (substr t p b)) = substr t p b"
  by (auto simp: substr_def min_def)

lemma gender_word:
  "extractGender t = Some g \<Longrightarrow>
   \<exists>p. p + length g \<le> length t \<and> g = substr t p (p + length g) \<and>
     (\<exists>w \<in> {''Male'', ''Female'', ''Other''}. ci_eq g w)"
proof -
  assume res: "extractGender t = Some g"
  let ?A = "RAlt (lit ''Male'') (RAlt (lit ''Female'') (lit ''Other''))"
  from res obtain p e cap where ex: "exec_from True t gender_regex 0 = Some (p, (e, cap))"
    and g: "group_text t (p, (e, cap)) 1 = Some g"
    by (auto simp: extractGender_def js_match_def split: option.splits)
  have "rmatch True t gender_regex (p, no_caps) (e, cap)"
    using exec_from_sound [OF wf_gender_regex ex] .
  then obtain y0 where w0: "rmatch True t RWordB (p, no_caps) y0"
    and r0: "rmatch True t (seqs [RGroup 1 ?A, RWordB]) y0 (e, cap)"
    unfolding gender_regex_def by (blast dest: rmatch_seqs_Cons)
  from rmatch_wordb [OF w0] have y0: "y0 = (p, no_caps)" by simp
  from r0 [unfolded y0] obtain y1 where gr: "rmatch True t (RGroup 1 ?A) (p, no_caps) y1"
    and r1: "rmatch True t (seqs [RWordB]) y1 (e, cap)"
    by (blast dest: rmatch_seqs_Cons)
  from rmatch_group [OF gr] obtain y where al: "rmatch True t ?A (p, no_caps) y"
    and y1: "y1 = (fst y, (snd y)(1 := Some (p, fst y)))" by auto
  obtain b c' where yb: "y = (b, c')" by (cases y)
  from rmatch_gender_words [of t p no_caps b c'] al yb
  obtain w where w: "w \<in> {''Male'', ''Female'', ''Other''}" "ci_eq (substr t p b) w" by auto
  from r1 y1 yb rmatch_wordb [of True t y1 "(e, cap)"] have "(e, cap) = (b, c'(1 := Some (p, b)))"
    by simp
  then have gb: "g = substr t p b" using g by (simp add: group_text_at)
  with w have "g \<noteq> []" by (auto simp: ci_eq_def)
  with gb substr_span [of t p b] w show ?thesis by auto
qed

text \<open>C11: a gender the extractor returns is the text it matched, as the text
  spells it (no case is forced), and that text is \<open>Male\<close>, \<open>Female\<close> or
  \<open>Other\<close> up to case.\<close>

theorem extractGender_word:
  "extractGender t = Some g \<Longrightarrow>
   \<exists>p. p + length g \<le> length t \<and> g = substr t p (p + length g) \<and>
     (\<exists>w \<in> {''Male'', ''Female'', ''Other''}. ci_eq g w)"
  by (rule gender_word)

theorem extractGender_word_witness:
  "extractGender ''female'' = Some ''female'' \<and>
   (\<exists>p. p + length ''female'' \<le> length ''female'' \<and>
      ''female'' = substr ''female'' p (p + length ''female'') \<and>
      (\<exists>w \<in> {''Male'', ''Female'', ''Other''}. ci_eq ''female'' w))"
proof -
  have ev: "extractGender ''female'' = Some ''female''" by code_simp
  show ?thesis by (rule conjI [OF ev extractGender_word [OF ev]])
qed

end
