(* ===== verification/Server.thy ===== *)
theory Server
  imports Details
begin

text \<open>
  The HTTP boundary of \<open>src/server.js\<close>: the multer upload middleware configured at
  lines 14--27 (its \<open>fileFilter\<close> and size limit), the route \<open>POST /upload-aadhar\<close>
  (lines 29--48), \<open>performOCR\<close> (lines 50--67) and the error middleware (lines 93--99).
  Tesseract is an abstract engine, a function from an image buffer to its text or an
  error; every call the route makes to it is recorded in a trace of events, so that the
  order of the two awaited calls, and the calls that are never made, are part of the
  model. An exception is a value of \<open>js_error\<close>; a \<open>try\<close>/\<open>catch\<close> is a case split on it.
  The route's response is its status code and its JSON body.
\<close>

section \<open>Requests, files, errors and responses\<close>

type_synonym buffer = "nat list"

text \<open>A file as multer reports it (\<open>file.fieldname\<close>, \<open>file.mimetype\<close>, \<open>file.size\<close>,
  \<open>file.buffer\<close> of memory storage).\<close>

record uploaded_file =
  fieldname :: string
  mimetype :: string
  fsize :: nat
  buffer :: buffer

text \<open>The two error codes of \<open>MulterError\<close> this configuration can raise.\<close>

datatype multer_code = LIMIT_FILE_SIZE | LIMIT_UNEXPECTED_FILE

text \<open>The exceptions of the route: an \<open>Error\<close> with its message, a \<open>TypeError\<close> from
  reading the property named by its argument of \<open>undefined\<close>, and a \<open>MulterError\<close>
  with its code and the field it concerns.\<close>

datatype js_error = Error string | TypeError string | MulterError multer_code string

fun err_message :: "js_error \<Rightarrow> string" where
  "err_message (Error msg) = msg"
| "err_message (TypeError p) = ''Cannot read properties of undefined (reading '' @ [CHR 0x27] @ p @ [CHR 0x27, CHR '')'']"
| "err_message (MulterError LIMIT_FILE_SIZE _) = ''File too large''"
| "err_message (MulterError LIMIT_UNEXPECTED_FILE _) = ''Unexpected field''"

text \<open>\<open>req.files\<close> of \<open>upload.fields\<close>: each field name maps to the array of its files;
  \<open>None\<close> at the top is a request multer did not parse (\<open>req.files\<close> undefined).\<close>

type_synonym req_files = "string \<Rightarrow> uploaded_file list option"

text \<open>The JSON bodies the route sends: the record of \<open>extractAadharDetails\<close>, the
  route's own failure \<open>{error, details}\<close>, and the error middleware's
  \<open>{error, message}\<close>.\<close>

datatype body = DocBody aadhar_details | FailBody string string | ErrBody string string

datatype response = Response nat body

text \<open>The events of the OCR engine, in the order they happen.\<close>

datatype ocr_event = OCRStart buffer | OCRDone buffer | OCRFail buffer

type_synonym ocr_engine = "buffer \<Rightarrow> js_error + string"

section \<open>The upload middleware (lines 14--27)\<close>

definition allowedTypes :: "string list" where
  "allowedTypes = [''image/jpeg'', ''image/png'', ''image/jpg'']"

text \<open>\<open>fileFilter\<close>, lines 19--26: \<open>cb(null, true)\<close> is \<open>Inr True\<close>, \<open>cb(new Error(..))\<close>
  is the error.\<close>

definition fileFilter :: "uploaded_file \<Rightarrow> js_error + bool" where
  "fileFilter file =
     (if mimetype file \<in> set allowedTypes then Inr True
      else Inl (Error ''Invalid file type. Only JPEG and PNG are allowed.''))"

definition fileSize_limit :: nat where
  "fileSize_limit = 5 * 1024 * 1024"

definition upload_fields :: "(string \<times> nat) list" where
  "upload_fields = [(''frontSide'', 1), (''backSide'', 1)]"

definition field_files :: "req_files \<Rightarrow> string \<Rightarrow> uploaded_file list" where
  "field_files acc fld = (case acc fld of None \<Rightarrow> [] | Some xs \<Rightarrow> xs)"

text \<open>Multer's handling of the file parts of a multipart body, in stream order: a field
  that is not declared, or whose \<open>maxCount\<close> is used up, is \<open>LIMIT_UNEXPECTED_FILE\<close>;
  then the file filter runs (a file it declines is skipped); a file over the size
  limit is \<open>LIMIT_FILE_SIZE\<close>; otherwise the file is appended to its field's array.\<close>

fun multer_parts :: "(string \<times> nat) list \<Rightarrow> uploaded_file list \<Rightarrow> req_files \<Rightarrow> js_error + req_files" where
  "multer_parts flds [] acc = Inr acc"
| "multer_parts flds (f # fs) acc =
     (case map_of flds (fieldname f) of
        None \<Rightarrow> Inl (MulterError LIMIT_UNEXPECTED_FILE (fieldname f))
      | Some mx \<Rightarrow>
          if mx \<le> length (field_files acc (fieldname f))
          then Inl (MulterError LIMIT_UNEXPECTED_FILE (fieldname f))
          else (case fileFilter f of
                  Inl e \<Rightarrow> Inl e
                | Inr False \<Rightarrow> multer_parts flds fs acc
                | Inr True \<Rightarrow>
                    if fileSize_limit < fsize f
                    then Inl (MulterError LIMIT_FILE_SIZE (fieldname f))
                    else multer_parts flds fs
                           (acc(fieldname f \<mapsto> field_files acc (fieldname f) @ [f]))))"

section \<open>The route (lines 29--67)\<close>

text \<open>\<open>performOCR\<close>, lines 50--67: await the engine, then \<open>cleanOCRText\<close> its text; the
  \<open>catch\<close> rethrows the engine's error unchanged.\<close>

definition performOCR ::
  "ocr_engine \<Rightarrow> buffer \<Rightarrow> ocr_event list \<Rightarrow> (js_error + recognized_side) \<times> ocr_event list" where
  "performOCR ocr buf tr =
     (case ocr buf of
        Inl e \<Rightarrow> (Inl e, tr @ [OCRStart buf, OCRFail buf])
      | Inr text \<Rightarrow> (Inr (cleanOCRText text), tr @ [OCRStart buf, OCRDone buf]))"

text \<open>\<open>req.files[fld][0]\<close>: a \<open>TypeError\<close> when \<open>req.files\<close> or its field is undefined,
  \<open>undefined\<close> (here \<open>None\<close>) for an empty array.\<close>

definition file_index :: "req_files option \<Rightarrow> string \<Rightarrow> js_error + uploaded_file option" where
  "file_index rf fld =
     (case rf of
        None \<Rightarrow> Inl (TypeError fld)
      | Some fs \<Rightarrow> (case fs fld of
                     None \<Rightarrow> Inl (TypeError ''0'')
                   | Some xs \<Rightarrow> Inr (case xs of [] \<Rightarrow> None | x # _ \<Rightarrow> Some x)))"

text \<open>\<open>side.buffer\<close>.\<close>

definition get_buffer :: "uploaded_file option \<Rightarrow> js_error + buffer" where
  "get_buffer f = (case f of None \<Rightarrow> Inl (TypeError ''buffer'') | Some x \<Rightarrow> Inr (buffer x))"

text \<open>The \<open>catch\<close> of the route, lines 41--46.\<close>

definition fail_response :: "js_error \<Rightarrow> response" where
  "fail_response e = Response 500 (FailBody ''Processing failed'' (err_message e))"

text \<open>The route's body, lines 30--47: the two files are read, then the front side is
  recognised and awaited, and only then the back side's buffer read and the back
  side recognised; the record is assembled from both results.\<close>

definition upload_aadhar :: "ocr_engine \<Rightarrow> req_files option \<Rightarrow> response \<times> ocr_event list" where
  "upload_aadhar ocr rf =
     (case file_index rf ''frontSide'' of
        Inl e \<Rightarrow> (fail_response e, [])
      | Inr frontSide \<Rightarrow>
     (case file_index rf ''backSide'' of
        Inl e \<Rightarrow> (fail_response e, [])
      | Inr backSide \<Rightarrow>
     (case get_buffer frontSide of
        Inl e \<Rightarrow> (fail_response e, [])
      | Inr fb \<Rightarrow>
     (case performOCR ocr fb [] of
        (Inl e, tr) \<Rightarrow> (fail_response e, tr)
      | (Inr frontOCR, tr) \<Rightarrow>
     (case get_buffer backSide of
        Inl e \<Rightarrow> (fail_response e, tr)
      | Inr bb \<Rightarrow>
     (case performOCR ocr bb tr of
        (Inl e, tr') \<Rightarrow> (fail_response e, tr')
      | (Inr backOCR, tr') \<Rightarrow>
          (Response 200 (DocBody (extractAadharDetails frontOCR backOCR)), tr')))))))"

text \<open>The error middleware, lines 93--99, which receives the upload middleware's errors.\<close>

definition error_middleware :: "js_error \<Rightarrow> response" where
  "error_middleware err = Response 500 (ErrBody ''Something went wrong!'' (err_message err))"

text \<open>The whole request: a body that is not multipart passes multer untouched
  (\<open>req.files\<close> stays undefined); a multipart body's file parts go through multer,
  whose error goes to the error middleware, and the route runs on \<open>req.files\<close>.\<close>

definition post_upload_aadhar :: "ocr_engine \<Rightarrow> uploaded_file list option \<Rightarrow> response \<times> ocr_event list" where
  "post_upload_aadhar ocr body =
     (case body of
        None \<Rightarrow> upload_aadhar ocr None
      | Some parts \<Rightarrow>
          (case multer_parts upload_fields parts Map.empty of
             Inl e \<Rightarrow> (error_middleware e, [])
           | Inr files \<Rightarrow> upload_aadhar ocr (Some files)))"

section \<open>The orchestrator contract\<close>

text \<open>The orchestrator's contract (the specification's \<open>extractDocument\<close>): recognise
  both images, fail with the engine's error if either recognition fails, otherwise
  assemble the record from the two cleaned texts. \<open>response_result\<close> reads a
  response back as that result: the record of a 200, the message of a 500.\<close>

definition extractDocument :: "ocr_engine \<Rightarrow> buffer \<Rightarrow> buffer \<Rightarrow> js_error + aadhar_details" where
  "extractDocument ocr frontImage backImage =
     (case ocr frontImage of
        Inl e \<Rightarrow> Inl e
      | Inr tf \<Rightarrow>
          (case ocr backImage of
             Inl e \<Rightarrow> Inl e
           | Inr tb \<Rightarrow> Inr (extractAadharDetails (cleanOCRText tf) (cleanOCRText tb))))"

fun response_result :: "response \<Rightarrow> string + aadhar_details" where
  "response_result (Response _ (DocBody d)) = Inr d"
| "response_result (Response _ (FailBody _ msg)) = Inl msg"
| "response_result (Response _ (ErrBody _ msg)) = Inl msg"

section \<open>What the route promises\<close>

text \<open>The invariant of \<open>req.files\<close> under multer: every field holds a non-empty
  array of at most its \<open>maxCount\<close> files, each a part of the request under that
  field's name, of an allowed type and within the size limit.\<close>

definition files_ok :: "(string \<times> nat) list \<Rightarrow> uploaded_file set \<Rightarrow> req_files \<Rightarrow> bool" where
  "files_ok flds P acc \<longleftrightarrow>
     (\<forall>fld xs. acc fld = Some xs \<longrightarrow> xs \<noteq> [] \<and>
        (\<exists>mx. map_of flds fld = Some mx \<and> length xs \<le> mx) \<and>
        (\<forall>f \<in> set xs. f \<in> P \<and> fieldname f = fld \<and> mimetype f \<in> set allowedTypes \<and>
                      fsize f \<le> fileSize_limit))"

subsection \<open>The upload middleware keeps the invariant\<close>

lemma files_ok_empty: "files_ok flds P Map.empty"
  by (simp add: files_ok_def)

lemma files_ok_add:
  assumes ok: "files_ok flds P acc" and mx: "map_of flds (fieldname f) = Some mx"
    and lt: "\<not> mx \<le> length (field_files acc (fieldname f))"
    and f: "f \<in> P" "mimetype f \<in> set allowedTypes" "fsize f \<le> fileSize_limit"
  shows "files_ok flds P (acc(fieldname f \<mapsto> field_files acc (fieldname f) @ [f]))"
  using assms unfolding files_ok_def field_files_def
  by (auto split: option.splits)

lemma fileFilter_Inr: "fileFilter f = Inr b \<Longrightarrow> b \<and> mimetype f \<in> set allowedTypes"
  by (simp add: fileFilter_def split: if_splits)

lemma multer_parts_ok:
  "multer_parts flds parts acc = Inr files \<Longrightarrow> files_ok flds P acc \<Longrightarrow> set parts \<subseteq> P \<Longrightarrow>
   files_ok flds P files"
proof (induction flds parts acc rule: multer_parts.induct)
  case (1 flds acc)
  then show ?case by simp
next
  case (2 flds f fs acc)
  show ?case
  proof (cases "map_of flds (fieldname f)")
    case None
    then show ?thesis using "2.prems" by simp
  next
    case (Some mx)
    show ?thesis
    proof (cases "fileFilter f")
      case (Inl e)
      then show ?thesis using "2.prems" Some by (simp split: if_splits)
    next
      case (Inr b)
      with fileFilter_Inr have b: "b" "mimetype f \<in> set allowedTypes" by auto
      show ?thesis
      proof -
        have lt: "\<not> mx \<le> length (field_files acc (fieldname f))"
          and sz: "\<not> fileSize_limit < fsize f"
          and rec: "multer_parts flds fs (acc(fieldname f \<mapsto> field_files acc (fieldname f) @ [f])) = Inr files"
          using "2.prems"(1) Some Inr b(1) by (auto split: if_splits)
        have "files_ok flds P (acc(fieldname f \<mapsto> field_files acc (fieldname f) @ [f]))"
          using files_ok_add [OF "2.prems"(2) Some lt] "2.prems"(3) b(2) sz by simp
        then show ?thesis
          using "2.prems"(3) b(1) sz rec by (intro "2.IH"(1) [OF Some lt Inr]) (simp_all add: fun_upd_def)
      qed
    qed
  qed
qed

lemma file_index_Some:
  "file_index rf fld = Inr (Some f) \<longleftrightarrow> (\<exists>fs xs. rf = Some fs \<and> fs fld = Some (f # xs))"
  by (auto simp: file_index_def split: option.splits list.splits)

lemma files_ok_member:
  "files_ok flds P files \<Longrightarrow> files fld = Some (f # xs) \<Longrightarrow>
   f \<in> P \<and> fieldname f = fld \<and> mimetype f \<in> set allowedTypes \<and> fsize f \<le> fileSize_limit"
  unfolding files_ok_def by (metis list.set_intros(1))

lemma multer_upload_ok:
  "multer_parts upload_fields parts Map.empty = Inr files \<Longrightarrow> files_ok upload_fields (set parts) files"
  using multer_parts_ok files_ok_empty by blast

text \<open>C17: every \<open>req.files\<close> multer hands to the route satisfies the invariant:
  only the two declared sides, one file each at most, each an accepted part of the
  request.\<close>

theorem multer_upload_invariant:
  "multer_parts upload_fields parts Map.empty = Inr files \<Longrightarrow> files_ok upload_fields (set parts) files"
  using multer_parts_ok files_ok_empty by blast

subsection \<open>The route\<close>

lemma upload_aadhar_Some:
  assumes "fs ''frontSide'' = Some (ff # ffs)" "fs ''backSide'' = Some (bf # bfs)"
  shows "upload_aadhar ocr (Some fs) =
    (case ocr (buffer ff) of
       Inl e \<Rightarrow> (fail_response e, [OCRStart (buffer ff), OCRFail (buffer ff)])
     | Inr tf \<Rightarrow>
         (case ocr (buffer bf) of
            Inl e \<Rightarrow> (fail_response e, [OCRStart (buffer ff), OCRDone (buffer ff), OCRStart (buffer bf), OCRFail (buffer bf)])
          | Inr tb \<Rightarrow> (Response 200 (DocBody (extractAadharDetails (cleanOCRText tf) (cleanOCRText tb))),
                       [OCRStart (buffer ff), OCRDone (buffer ff), OCRStart (buffer bf), OCRDone (buffer bf)])))"
  using assms
  by (simp add: upload_aadhar_def file_index_def get_buffer_def performOCR_def
      split: sum.split)

lemma upload_aadhar_cases:
  "upload_aadhar ocr rf = (Response c b, tr) \<Longrightarrow>
   (\<exists>ff bf tf tb. ocr (buffer ff) = Inr tf \<and> ocr (buffer bf) = Inr tb \<and>
      file_index rf ''frontSide'' = Inr (Some ff) \<and> file_index rf ''backSide'' = Inr (Some bf) \<and>
      c = 200 \<and> b = DocBody (extractAadharDetails (cleanOCRText tf) (cleanOCRText tb)) \<and>
      tr = [OCRStart (buffer ff), OCRDone (buffer ff), OCRStart (buffer bf), OCRDone (buffer bf)]) \<or>
   (\<exists>e. c = 500 \<and> b = FailBody ''Processing failed'' (err_message e))"
  unfolding upload_aadhar_def fail_response_def
  by (auto simp: file_index_def get_buffer_def performOCR_def
      split: sum.splits option.splits list.splits if_splits)

lemma files_ok_field:
  "files_ok flds P files \<Longrightarrow> \<forall>f\<in>P. fieldname f \<noteq> fld \<Longrightarrow> files fld = None"
proof (rule ccontr)
  assume ok: "files_ok flds P files" and nf: "\<forall>f\<in>P. fieldname f \<noteq> fld" and "files fld \<noteq> None"
  then obtain f xs where "files fld = Some (f # xs)"
    unfolding files_ok_def by (metis neq_Nil_conv option.exhaust)
  with files_ok_member [OF ok] nf show False by blast
qed

lemma multer_two_sides:
  assumes "fieldname ff = ''frontSide''" "fieldname bf = ''backSide''"
    "mimetype ff \<in> set allowedTypes" "mimetype bf \<in> set allowedTypes"
    "fsize ff \<le> fileSize_limit" "fsize bf \<le> fileSize_limit"
  shows "multer_parts upload_fields [ff, bf] Map.empty =
           Inr [''frontSide'' \<mapsto> [ff], ''backSide'' \<mapsto> [bf]]"
  using assms
  by (simp add: upload_fields_def fileFilter_def field_files_def not_less)

text \<open>C1: no partial record: the route answers 200 only with the record assembled
  from the engine's texts for an accepted front file and an accepted back file, after
  exactly the two engine calls, front first; every other answer is a 500 that
  carries no record.\<close>

theorem route_no_partial_record:
  "post_upload_aadhar ocr body = (Response c b, tr) \<Longrightarrow>
   (c = 200 \<and> (\<exists>parts ff bf tf tb. body = Some parts \<and> ff \<in> set parts \<and> bf \<in> set parts \<and>
      fieldname ff = ''frontSide'' \<and> fieldname bf = ''backSide'' \<and>
      mimetype ff \<in> set allowedTypes \<and> mimetype bf \<in> set allowedTypes \<and>
      fsize ff \<le> fileSize_limit \<and> fsize bf \<le> fileSize_limit \<and>
      ocr (buffer ff) = Inr tf \<and> ocr (buffer bf) = Inr tb \<and>
      b = DocBody (extractAadharDetails (cleanOCRText tf) (cleanOCRText tb)) \<and>
      tr = [OCRStart (buffer ff), OCRDone (buffer ff), OCRStart (buffer bf), OCRDone (buffer bf)])) \<or>
   (c = 500 \<and> (\<forall>d. b \<noteq> DocBody d))"
proof -
  assume post: "post_upload_aadhar ocr body = (Response c b, tr)"
  show ?thesis
  proof (cases body)
    case None
    then show ?thesis using post
      by (auto simp add: post_upload_aadhar_def upload_aadhar_def file_index_def fail_response_def
          simp del: err_message.simps)
  next
    case (Some parts)
    show ?thesis
    proof (cases "multer_parts upload_fields parts Map.empty")
      case (Inl e)
      then show ?thesis using post Some by (auto simp add: post_upload_aadhar_def error_middleware_def)
    next
      case (Inr files)
      have up: "upload_aadhar ocr (Some files) = (Response c b, tr)"
        using post Some Inr by (simp add: post_upload_aadhar_def)
      have ok: "files_ok upload_fields (set parts) files"
        using multer_upload_ok [OF Inr] .
      from upload_aadhar_cases [OF up] show ?thesis
      proof
        assume "\<exists>ff bf tf tb. ocr (buffer ff) = Inr tf \<and> ocr (buffer bf) = Inr tb \<and>
          file_index (Some files) ''frontSide'' = Inr (Some ff) \<and>
          file_index (Some files) ''backSide'' = Inr (Some bf) \<and>
          c = 200 \<and> b = DocBody (extractAadharDetails (cleanOCRText tf) (cleanOCRText tb)) \<and>
          tr = [OCRStart (buffer ff), OCRDone (buffer ff), OCRStart (buffer bf), OCRDone (buffer bf)]"
        then obtain ff bf tf tb where e: "ocr (buffer ff) = Inr tf" "ocr (buffer bf) = Inr tb"
          and fi: "file_index (Some files) ''frontSide'' = Inr (Some ff)"
            "file_index (Some files) ''backSide'' = Inr (Some bf)"
          and r: "c = 200" "b = DocBody (extractAadharDetails (cleanOCRText tf) (cleanOCRText tb))"
            "tr = [OCRStart (buffer ff), OCRDone (buffer ff), OCRStart (buffer bf), OCRDone (buffer bf)]"
          by blast
        from fi obtain xs ys where "files ''frontSide'' = Some (ff # xs)" "files ''backSide'' = Some (bf # ys)"
          by (auto simp: file_index_Some)
        with files_ok_member [OF ok] have "ff \<in> set parts \<and> fieldname ff = ''frontSide'' \<and>
            mimetype ff \<in> set allowedTypes \<and> fsize ff \<le> fileSize_limit"
          "bf \<in> set parts \<and> fieldname bf = ''backSide'' \<and>
            mimetype bf \<in> set allowedTypes \<and> fsize bf \<le> fileSize_limit"
          by blast+
        with e r Some show ?thesis by blast
      next
        assume "\<exists>e. c = 500 \<and> b = FailBody ''Processing failed'' (err_message e)"
        then show ?thesis by auto
      qed
    qed
  qed
qed

theorem route_no_partial_record_witness:
  "post_upload_aadhar (\<lambda>b. Inr '''') None =
     (Response 500 (FailBody ''Processing failed'' (err_message (TypeError ''frontSide''))), []) \<and>
   (\<forall>d. FailBody ''Processing failed'' (err_message (TypeError ''frontSide'')) \<noteq> DocBody d)"
proof -
  have e: "post_upload_aadhar (\<lambda>b. Inr '''') None =
     (Response 500 (FailBody ''Processing failed'' (err_message (TypeError ''frontSide''))), [])"
    by (simp add: post_upload_aadhar_def upload_aadhar_def file_index_def fail_response_def
        del: err_message.simps)
  from route_no_partial_record [OF e] e show ?thesis by simp
qed

text \<open>A request with an accepted front file and an accepted back file, on
  which the engine succeeds, is answered 200 with the record assembled from the two
  cleaned texts; the engine recognises the front side, then the back side.\<close>

theorem route_success:
  assumes "fieldname ff = ''frontSide''" "fieldname bf = ''backSide''"
    "mimetype ff \<in> set allowedTypes" "mimetype bf \<in> set allowedTypes"
    "fsize ff \<le> fileSize_limit" "fsize bf \<le> fileSize_limit"
    "ocr (buffer ff) = Inr tf" "ocr (buffer bf) = Inr tb"
  shows "post_upload_aadhar ocr (Some [ff, bf]) =
    (Response 200 (DocBody (extractAadharDetails (cleanOCRText tf) (cleanOCRText tb))),
     [OCRStart (buffer ff), OCRDone (buffer ff), OCRStart (buffer bf), OCRDone (buffer bf)])"
proof -
  have "post_upload_aadhar ocr (Some [ff, bf]) =
          upload_aadhar ocr (Some [''frontSide'' \<mapsto> [ff], ''backSide'' \<mapsto> [bf]])"
    by (simp add: post_upload_aadhar_def multer_two_sides [OF assms(1-6)] del: multer_parts.simps)
  then show ?thesis using assms(7,8) by (simp add: upload_aadhar_Some)
qed

theorem route_success_witness:
  "post_upload_aadhar (\<lambda>b. Inr '''')
     (Some [\<lparr>fieldname = ''frontSide'', mimetype = ''image/png'', fsize = 1, buffer = [1]\<rparr>,
            \<lparr>fieldname = ''backSide'', mimetype = ''image/jpeg'', fsize = 2, buffer = [2]\<rparr>]) =
   (Response 200 (DocBody (extractAadharDetails (cleanOCRText '''') (cleanOCRText ''''))),
    [OCRStart [1], OCRDone [1], OCRStart [2], OCRDone [2]])"
  using route_success [of "\<lparr>fieldname = ''frontSide'', mimetype = ''image/png'', fsize = 1, buffer = [1]\<rparr>"
      "\<lparr>fieldname = ''backSide'', mimetype = ''image/jpeg'', fsize = 2, buffer = [2]\<rparr>"
      "\<lambda>b. Inr ''''" "''''" "''''"]
  by (simp add: allowedTypes_def fileSize_limit_def)

text \<open>C4: fail fast: when the engine fails on the front side the route answers 500
  with the engine's message, and the back side is never sent to the engine.\<close>

theorem upload_fail_fast:
  "fs ''frontSide'' = Some (ff # ffs) \<Longrightarrow> fs ''backSide'' = Some (bf # bfs) \<Longrightarrow>
   ocr (buffer ff) = Inl e \<Longrightarrow>
   upload_aadhar ocr (Some fs) = (fail_response e, [OCRStart (buffer ff), OCRFail (buffer ff)])"
  by (simp add: upload_aadhar_Some)

theorem upload_fail_fast_witness:
  "upload_aadhar (\<lambda>b. Inl (Error ''corrupt image''))
     (Some [''frontSide'' \<mapsto> [\<lparr>fieldname = ''frontSide'', mimetype = ''image/png'', fsize = 1, buffer = [1]\<rparr>],
            ''backSide'' \<mapsto> [\<lparr>fieldname = ''backSide'', mimetype = ''image/png'', fsize = 1, buffer = [2]\<rparr>]]) =
   (Response 500 (FailBody ''Processing failed'' ''corrupt image''), [OCRStart [1], OCRFail [1]])"
  using upload_fail_fast [of "[''frontSide'' \<mapsto> [\<lparr>fieldname = ''frontSide'', mimetype = ''image/png'', fsize = 1, buffer = [1]\<rparr>],
            ''backSide'' \<mapsto> [\<lparr>fieldname = ''backSide'', mimetype = ''image/png'', fsize = 1, buffer = [2]\<rparr>]]"
      "\<lparr>fieldname = ''frontSide'', mimetype = ''image/png'', fsize = 1, buffer = [1]\<rparr>" "[]"
      "\<lparr>fieldname = ''backSide'', mimetype = ''image/png'', fsize = 1, buffer = [2]\<rparr>" "[]"
      "\<lambda>b. Inl (Error ''corrupt image'')" "Error ''corrupt image''"]
  by (simp add: fail_response_def)

lemma multer_parts_append:
  "multer_parts flds (xs @ ys) acc =
     (case multer_parts flds xs acc of Inl e \<Rightarrow> Inl e | Inr acc' \<Rightarrow> multer_parts flds ys acc')"
  by (induction xs arbitrary: acc) (simp_all split: option.split sum.split bool.split)

text \<open>C18: a file of a type other than JPEG or PNG is rejected by the file filter and
  answered by the error middleware, with no engine call, wherever it comes in the
  request: whenever the parts before it pass multer and its field is declared and not
  yet full (so that multer's own field check does not reject it first).\<close>

theorem route_invalid_type:
  "multer_parts upload_fields pre Map.empty = Inr acc \<Longrightarrow>
   map_of upload_fields (fieldname f) = Some mx \<Longrightarrow> length (field_files acc (fieldname f)) < mx \<Longrightarrow>
   mimetype f \<notin> set allowedTypes \<Longrightarrow>
   post_upload_aadhar ocr (Some (pre @ f # post)) =
     (Response 500 (ErrBody ''Something went wrong!'' ''Invalid file type. Only JPEG and PNG are allowed.''), [])"
  by (simp add: post_upload_aadhar_def multer_parts_append fileFilter_def error_middleware_def)

theorem route_invalid_type_witness:
  "post_upload_aadhar (\<lambda>b. Inr '''')
     (Some [\<lparr>fieldname = ''frontSide'', mimetype = ''image/png'', fsize = 1, buffer = [1]\<rparr>,
            \<lparr>fieldname = ''backSide'', mimetype = ''image/gif'', fsize = 1, buffer = [2]\<rparr>]) =
     (Response 500 (ErrBody ''Something went wrong!'' ''Invalid file type. Only JPEG and PNG are allowed.''), [])"
proof -
  have pre: "multer_parts upload_fields [\<lparr>fieldname = ''frontSide'', mimetype = ''image/png'', fsize = 1, buffer = [1]\<rparr>] Map.empty =
      Inr [''frontSide'' \<mapsto> [\<lparr>fieldname = ''frontSide'', mimetype = ''image/png'', fsize = 1, buffer = [1]\<rparr>]]"
    by (simp add: upload_fields_def field_files_def fileFilter_def allowedTypes_def fileSize_limit_def)
  show ?thesis
    using route_invalid_type [OF pre, of "\<lparr>fieldname = ''backSide'', mimetype = ''image/gif'', fsize = 1, buffer = [2]\<rparr>" 1]
    by (simp add: upload_fields_def field_files_def allowedTypes_def)
qed

text \<open>C19: a request without a back-side file never reaches the engine and is
  answered 500.\<close>

theorem route_needs_back_side:
  "\<forall>f\<in>set parts. fieldname f \<noteq> ''backSide'' \<Longrightarrow>
   post_upload_aadhar ocr (Some parts) = (r, tr) \<Longrightarrow> tr = [] \<and> (\<exists>b. r = Response 500 b)"
proof -
  assume nb: "\<forall>f\<in>set parts. fieldname f \<noteq> ''backSide''"
    and post: "post_upload_aadhar ocr (Some parts) = (r, tr)"
  show ?thesis
  proof (cases "multer_parts upload_fields parts Map.empty")
    case (Inl e)
    then show ?thesis using post by (auto simp: post_upload_aadhar_def error_middleware_def)
  next
    case (Inr files)
    have "files ''backSide'' = None"
      using files_ok_field [OF multer_upload_ok [OF Inr] nb] .
    then show ?thesis using post Inr
      by (auto simp: post_upload_aadhar_def upload_aadhar_def file_index_def get_buffer_def
          performOCR_def fail_response_def split: sum.splits option.splits list.splits)
  qed
qed

theorem route_needs_back_side_witness:
  "post_upload_aadhar (\<lambda>b. Inr '''')
     (Some [\<lparr>fieldname = ''frontSide'', mimetype = ''image/png'', fsize = 1, buffer = [1]\<rparr>]) =
     (Response 500 (FailBody ''Processing failed'' (err_message (TypeError ''0''))), []) \<and>
   (\<exists>b. Response 500 (FailBody ''Processing failed'' (err_message (TypeError ''0''))) = Response 500 b)"
proof -
  have e: "post_upload_aadhar (\<lambda>b. Inr '''')
     (Some [\<lparr>fieldname = ''frontSide'', mimetype = ''image/png'', fsize = 1, buffer = [1]\<rparr>]) =
     (Response 500 (FailBody ''Processing failed'' (err_message (TypeError ''0''))), [])"
    by (simp add: post_upload_aadhar_def upload_aadhar_def upload_fields_def fileFilter_def
        allowedTypes_def fileSize_limit_def field_files_def file_index_def fail_response_def
        del: err_message.simps)
  have "\<forall>f\<in>set [\<lparr>fieldname = ''frontSide'', mimetype = ''image/png'', fsize = 1, buffer = [1::nat]\<rparr>].
          fieldname f \<noteq> ''backSide''" by simp
  from route_needs_back_side [OF this e] e show ?thesis by simp
qed

theorem multer_upload_invariant_witness:
  "multer_parts upload_fields
     [\<lparr>fieldname = ''frontSide'', mimetype = ''image/png'', fsize = 1, buffer = [1]\<rparr>,
      \<lparr>fieldname = ''backSide'', mimetype = ''image/jpg'', fsize = 2, buffer = [2]\<rparr>] Map.empty =
     Inr [''frontSide'' \<mapsto> [\<lparr>fieldname = ''frontSide'', mimetype = ''image/png'', fsize = 1, buffer = [1]\<rparr>],
          ''backSide'' \<mapsto> [\<lparr>fieldname = ''backSide'', mimetype = ''image/jpg'', fsize = 2, buffer = [2]\<rparr>]] \<and>
   files_ok upload_fields
     (set [\<lparr>fieldname = ''frontSide'', mimetype = ''image/png'', fsize = 1, buffer = [1]\<rparr>,
      \<lparr>fieldname = ''backSide'', mimetype = ''image/jpg'', fsize = 2, buffer = [2]\<rparr>])
     [''frontSide'' \<mapsto> [\<lparr>fieldname = ''frontSide'', mimetype = ''image/png'', fsize = 1, buffer = [1]\<rparr>],
      ''backSide'' \<mapsto> [\<lparr>fieldname = ''backSide'', mimetype = ''image/jpg'', fsize = 2, buffer = [2]\<rparr>]]"
proof -
  have e: "multer_parts upload_fields
     [\<lparr>fieldname = ''frontSide'', mimetype = ''image/png'', fsize = 1, buffer = [1]\<rparr>,
      \<lparr>fieldname = ''backSide'', mimetype = ''image/jpg'', fsize = 2, buffer = [2]\<rparr>] Map.empty =
     Inr [''frontSide'' \<mapsto> [\<lparr>fieldname = ''frontSide'', mimetype = ''image/png'', fsize = 1, buffer = [1]\<rparr>],
          ''backSide'' \<mapsto> [\<lparr>fieldname = ''backSide'', mimetype = ''image/jpg'', fsize = 2, buffer = [2]\<rparr>]]"
    by (rule multer_two_sides) (simp_all add: allowedTypes_def fileSize_limit_def)
  from multer_upload_invariant [OF e] e show ?thesis by simp
qed

text \<open>C20: the route refines the orchestrator's contract: for a request carrying both
  sides, the response read back is the contract's result on the two images, the
  engine's error message in place of the error.\<close>

theorem upload_refines_extractDocument:
  "fs ''frontSide'' = Some (ff # ffs) \<Longrightarrow> fs ''backSide'' = Some (bf # bfs) \<Longrightarrow>
   response_result (fst (upload_aadhar ocr (Some fs))) =
     map_sum err_message id (extractDocument ocr (buffer ff) (buffer bf))"
  by (simp add: upload_aadhar_Some extractDocument_def fail_response_def split: sum.split)

theorem upload_refines_extractDocument_witness:
  "response_result (fst (upload_aadhar (\<lambda>b. if b = [2] then Inl (Error ''corrupt image'') else Inr '''')
     (Some [''frontSide'' \<mapsto> [\<lparr>fieldname = ''frontSide'', mimetype = ''image/png'', fsize = 1, buffer = [1]\<rparr>],
            ''backSide'' \<mapsto> [\<lparr>fieldname = ''backSide'', mimetype = ''image/png'', fsize = 1, buffer = [2]\<rparr>]]))) =
   Inl ''corrupt image''"
  using upload_refines_extractDocument
    [of "[''frontSide'' \<mapsto> [\<lparr>fieldname = ''frontSide'', mimetype = ''image/png'', fsize = 1, buffer = [1]\<rparr>],
          ''backSide'' \<mapsto> [\<lparr>fieldname = ''backSide'', mimetype = ''image/png'', fsize = 1, buffer = [2]\<rparr>]]"
        "\<lparr>fieldname = ''frontSide'', mimetype = ''image/png'', fsize = 1, buffer = [1]\<rparr>" "[]"
        "\<lparr>fieldname = ''backSide'', mimetype = ''image/png'', fsize = 1, buffer = [2]\<rparr>" "[]"
        "\<lambda>b. if b = [2] then Inl (Error ''corrupt image'') else Inr ''''"]
  by (simp add: extractDocument_def)

lemma upload_aadhar_trace:
  "upload_aadhar ocr rf = (r, tr) \<Longrightarrow> ev \<in> set tr \<Longrightarrow>
   \<exists>fs fld f xs. rf = Some fs \<and> fs fld = Some (f # xs) \<and>
     ev \<in> {OCRStart (buffer f), OCRDone (buffer f), OCRFail (buffer f)}"
  unfolding upload_aadhar_def
  by (auto simp: file_index_def get_buffer_def performOCR_def
      split: sum.splits option.splits list.splits if_splits) blast+

text \<open>C27: bound on what reaches the engine: every image the route sends to the engine
  is a part of the request of an allowed type and at most 5 MiB.\<close>

theorem route_engine_inputs_bounded:
  "post_upload_aadhar ocr body = (r, tr) \<Longrightarrow> ev \<in> set tr \<Longrightarrow>
   \<exists>parts f. body = Some parts \<and> f \<in> set parts \<and>
     ev \<in> {OCRStart (buffer f), OCRDone (buffer f), OCRFail (buffer f)} \<and>
     mimetype f \<in> set allowedTypes \<and> fsize f \<le> 5 * 1024 * 1024"
proof -
  assume post: "post_upload_aadhar ocr body = (r, tr)" and ev: "ev \<in> set tr"
  show ?thesis
  proof (cases body)
    case None
    then show ?thesis using post ev
      by (simp add: post_upload_aadhar_def upload_aadhar_def file_index_def)
  next
    case (Some parts)
    show ?thesis
    proof (cases "multer_parts upload_fields parts Map.empty")
      case (Inl e)
      then show ?thesis using post ev Some by (simp add: post_upload_aadhar_def)
    next
      case (Inr files)
      have up: "upload_aadhar ocr (Some files) = (r, tr)"
        using post Some Inr by (simp add: post_upload_aadhar_def)
      from upload_aadhar_trace [OF up ev] obtain fld f xs
        where "files fld = Some (f # xs)"
          and e: "ev \<in> {OCRStart (buffer f), OCRDone (buffer f), OCRFail (buffer f)}"
        by blast
      with files_ok_member [OF multer_upload_ok [OF Inr]]
      have "f \<in> set parts" "mimetype f \<in> set allowedTypes" "fsize f \<le> fileSize_limit"
        by blast+
      with e Some show ?thesis by (auto simp: fileSize_limit_def)
    qed
  qed
qed

theorem route_engine_inputs_bounded_witness:
  "post_upload_aadhar (\<lambda>b. Inr '''')
     (Some [\<lparr>fieldname = ''frontSide'', mimetype = ''image/png'', fsize = 1, buffer = [1]\<rparr>,
            \<lparr>fieldname = ''backSide'', mimetype = ''image/jpeg'', fsize = 2, buffer = [2]\<rparr>]) =
     (Response 200 (DocBody (extractAadharDetails (cleanOCRText '''') (cleanOCRText ''''))),
      [OCRStart [1], OCRDone [1], OCRStart [2], OCRDone [2]]) \<and>
   (\<exists>f \<in> set [\<lparr>fieldname = ''frontSide'', mimetype = ''image/png'', fsize = 1, buffer = [1::nat]\<rparr>,
            \<lparr>fieldname = ''backSide'', mimetype = ''image/jpeg'', fsize = 2, buffer = [2]\<rparr>].
      OCRStart [2] \<in> {OCRStart (buffer f), OCRDone (buffer f), OCRFail (buffer f)} \<and>
      mimetype f \<in> set allowedTypes \<and> fsize f \<le> 5 * 1024 * 1024)"
proof -
  have m: "multer_parts upload_fields
     [\<lparr>fieldname = ''frontSide'', mimetype = ''image/png'', fsize = 1, buffer = [1]\<rparr>,
      \<lparr>fieldname = ''backSide'', mimetype = ''image/jpeg'', fsize = 2, buffer = [2]\<rparr>] Map.empty =
     Inr [''frontSide'' \<mapsto> [\<lparr>fieldname = ''frontSide'', mimetype = ''image/png'', fsize = 1, buffer = [1]\<rparr>],
          ''backSide'' \<mapsto> [\<lparr>fieldname = ''backSide'', mimetype = ''image/jpeg'', fsize = 2, buffer = [2]\<rparr>]]"
    by (rule multer_two_sides) (simp_all add: allowedTypes_def fileSize_limit_def)
  have e: "post_upload_aadhar (\<lambda>b. Inr '''')
     (Some [\<lparr>fieldname = ''frontSide'', mimetype = ''image/png'', fsize = 1, buffer = [1]\<rparr>,
            \<lparr>fieldname = ''backSide'', mimetype = ''image/jpeg'', fsize = 2, buffer = [2]\<rparr>]) =
     (Response 200 (DocBody (extractAadharDetails (cleanOCRText '''') (cleanOCRText ''''))),
      [OCRStart [1], OCRDone [1], OCRStart [2], OCRDone [2]])"
    using m by (simp add: post_upload_aadhar_def upload_aadhar_Some del: multer_parts.simps)
  have "OCRStart [2] \<in> set [OCRStart [1], OCRDone [1], OCRStart [2], OCRDone [2::nat]]" by simp
  from route_engine_inputs_bounded [OF e this] e show ?thesis by auto
qed

end
