(* ===== verification/Route_Async.thy ===== *)
theory Route_Async
  imports Server
begin

text \<open>
  The route of \<open>src/server.js\<close> as it runs on the event loop. The handler (lines 29--48)
  is an \<open>async\<close> function: it runs until its first \<open>await\<close>, is suspended while
  Tesseract recognises the front image (line 34), resumes when that promise settles,
  and is suspended again for the back image (line 35). \<open>hstate\<close> names these points
  and \<open>hstep\<close> is one resumption. Many requests are in flight at once: a server state
  holds the handlers of the accepted requests and the requests still to be accepted,
  and \<open>server_step\<close> lets the event loop resume any handler that can run, in any
  order. The theory proves that one handler run to completion is the route of
  \<open>Server\<close>, that every run of the server is finite and ends with every request
  answered, and that each request gets the response, and causes the engine calls, of
  its run alone, however the handlers are interleaved.
\<close>

section \<open>One handler\<close>

text \<open>The points at which a request's handling can be suspended: the request is
  received and its body not yet parsed by multer; the route handler is invoked on
  \<open>req.files\<close>; the front image is being recognised (the back side's file is kept
  for line 35); the back image is being recognised (the front's result is kept); the
  response is sent.\<close>

datatype hstate =
    HRecv "uploaded_file list option"
  | HStart "req_files option"
  | HAwaitFront "uploaded_file option" buffer
  | HAwaitBack recognized_side buffer
  | HDone response

text \<open>One resumption of a handler and the engine events it causes. From \<open>HRecv\<close>,
  multer parses the body (its error goes to the error middleware). From \<open>HStart\<close>,
  lines 31--34 run up to the first \<open>await\<close>: a \<open>TypeError\<close> on the way is caught
  by line 41 and answered at once. When the front image's recognition settles, the
  rest of line 34 and line 35 run up to the second \<open>await\<close>; when the back image's
  settles, lines 35--40 finish. A sent response does not step.\<close>

fun hstep :: "ocr_engine \<Rightarrow> hstate \<Rightarrow> (hstate \<times> ocr_event list) option" where
  "hstep ocr (HRecv body) = Some
     (case body of
        None \<Rightarrow> (HStart None, [])
      | Some parts \<Rightarrow>
          (case multer_parts upload_fields parts Map.empty of
             Inl e \<Rightarrow> (HDone (error_middleware e), [])
           | Inr files \<Rightarrow> (HStart (Some files), [])))"
| "hstep ocr (HStart rf) = Some
     (case file_index rf ''frontSide'' of
        Inl e \<Rightarrow> (HDone (fail_response e), [])
      | Inr frontSide \<Rightarrow>
     (case file_index rf ''backSide'' of
        Inl e \<Rightarrow> (HDone (fail_response e), [])
      | Inr backSide \<Rightarrow>
     (case get_buffer frontSide of
        Inl e \<Rightarrow> (HDone (fail_response e), [])
      | Inr fb \<Rightarrow> (HAwaitFront backSide fb, [OCRStart fb]))))"
| "hstep ocr (HAwaitFront backSide fb) = Some
     (case ocr fb of
        Inl e \<Rightarrow> (HDone (fail_response e), [OCRFail fb])
      | Inr text \<Rightarrow>
     (case get_buffer backSide of
        Inl e \<Rightarrow> (HDone (fail_response e), [OCRDone fb])
      | Inr bb \<Rightarrow> (HAwaitBack (cleanOCRText text) bb, [OCRDone fb, OCRStart bb])))"
| "hstep ocr (HAwaitBack frontOCR bb) = Some
     (case ocr bb of
        Inl e \<Rightarrow> (HDone (fail_response e), [OCRFail bb])
      | Inr text \<Rightarrow>
          (HDone (Response 200 (DocBody (extractAadharDetails frontOCR (cleanOCRText text)))),
           [OCRDone bb]))"
| "hstep ocr (HDone r) = None"

text \<open>How many resumptions a handler has left at most.\<close>

fun hrank :: "hstate \<Rightarrow> nat" where
  "hrank (HRecv _) = 4"
| "hrank (HStart _) = 3"
| "hrank (HAwaitFront _ _) = 2"
| "hrank (HAwaitBack _ _) = 1"
| "hrank (HDone _) = 0"

fun hresponse :: "hstate \<Rightarrow> response option" where
  "hresponse (HDone r) = Some r"
| "hresponse _ = None"

lemma hstep_rank: "hstep ocr h = Some (h', evs) \<Longrightarrow> hrank h' < hrank h"
  by (cases h) (auto split: option.splits sum.splits)

lemma hstep_None_iff: "hstep ocr h = None \<longleftrightarrow> (\<exists>r. h = HDone r)"
  by (cases h) auto

text \<open>A handler run to completion, alone: its response and the engine events of all
  its resumptions. The recursion ends because every resumption lowers the rank.\<close>

function hrun :: "ocr_engine \<Rightarrow> hstate \<Rightarrow> response option \<times> ocr_event list" where
  "hrun ocr h =
     (case hstep ocr h of
        None \<Rightarrow> (hresponse h, [])
      | Some (h', evs) \<Rightarrow> (let (r, evs') = hrun ocr h' in (r, evs @ evs')))"
  by pat_completeness auto
termination
  by (relation "measure (\<lambda>(ocr, h). hrank h)") (auto dest: hstep_rank)

declare hrun.simps [simp del]

lemma hrun_step:
  "hstep ocr h = Some (h', evs) \<Longrightarrow> hrun ocr h = (fst (hrun ocr h'), evs @ snd (hrun ocr h'))"
  by (subst hrun.simps) (simp add: split_def Let_def)

lemma hrun_unfold:
  "hrun ocr h =
     (case hstep ocr h of
        None \<Rightarrow> (hresponse h, [])
      | Some (h', evs) \<Rightarrow> (fst (hrun ocr h'), evs @ snd (hrun ocr h')))"
  by (subst hrun.simps) (simp add: split_def Let_def split: option.split)

lemma hrun_HDone [simp]: "hrun ocr (HDone r) = (Some r, [])"
  by (subst hrun.simps) simp


lemma hrun_HAwaitBack:
  "hrun ocr (HAwaitBack fo bb) =
     (case ocr bb of
        Inl e \<Rightarrow> (Some (fail_response e), [OCRFail bb])
      | Inr text \<Rightarrow> (Some (Response 200 (DocBody (extractAadharDetails fo (cleanOCRText text)))), [OCRDone bb]))"
  by (subst hrun_unfold) (simp split: sum.split)

lemma hrun_HAwaitFront:
  "hrun ocr (HAwaitFront bs fb) =
     (case ocr fb of
        Inl e \<Rightarrow> (Some (fail_response e), [OCRFail fb])
      | Inr text \<Rightarrow>
     (case get_buffer bs of
        Inl e \<Rightarrow> (Some (fail_response e), [OCRDone fb])
      | Inr bb \<Rightarrow>
          (fst (hrun ocr (HAwaitBack (cleanOCRText text) bb)),
           OCRDone fb # OCRStart bb # snd (hrun ocr (HAwaitBack (cleanOCRText text) bb)))))"
  by (subst hrun_unfold) (simp split: sum.split)

text \<open>Run alone, the handler of a request is the route of \<open>Server\<close>: the same
  response and the same engine events, in the same order.\<close>

lemma hrun_HStart: "hrun ocr (HStart rf) = apfst Some (upload_aadhar ocr rf)"
  by (subst hrun_unfold)
     (simp add: hrun_HAwaitFront hrun_HAwaitBack upload_aadhar_def performOCR_def split: sum.split)

lemma hrun_HRecv: "hrun ocr (HRecv body) = apfst Some (post_upload_aadhar ocr body)"
  by (subst hrun_unfold) (simp add: hrun_HStart apfst_eq post_upload_aadhar_def split: option.split sum.split)

section \<open>Many requests on one event loop\<close>

text \<open>The server's state: the handlers of the accepted requests, numbered in the
  order of acceptance, the request bodies not yet accepted, and the engine events of
  all handlers, each tagged with its request's number, in the order they happened.\<close>

record server =
  handlers :: "hstate list"
  incoming :: "uploaded_file list option list"
  log :: "(nat \<times> ocr_event) list"

definition server_init :: "uploaded_file list option list \<Rightarrow> server" where
  "server_init reqs = \<lparr>handlers = [], incoming = reqs, log = []\<rparr>"

text \<open>A step of the event loop: accept the next request, or resume any handler that
  can run. Which handler runs next is not determined: the engine's promises settle in
  any order.\<close>

inductive server_step :: "ocr_engine \<Rightarrow> server \<Rightarrow> server \<Rightarrow> bool" for ocr where
  accept: "incoming s = b # bs \<Longrightarrow>
     server_step ocr s (s\<lparr>handlers := handlers s @ [HRecv b], incoming := bs\<rparr>)"
| resume: "i < length (handlers s) \<Longrightarrow> hstep ocr (handlers s ! i) = Some (h', evs) \<Longrightarrow>
     server_step ocr s (s\<lparr>handlers := (handlers s)[i := h'], log := log s @ map (Pair i) evs\<rparr>)"

inductive_cases server_stepE: "server_step ocr s t"

text \<open>Every request is accepted and its response sent.\<close>

definition answered :: "server \<Rightarrow> bool" where
  "answered s \<longleftrightarrow> incoming s = [] \<and> list_all (\<lambda>h. hresponse h \<noteq> None) (handlers s)"

text \<open>The engine events of request \<open>i\<close> in a log.\<close>

definition events_of :: "nat \<Rightarrow> (nat \<times> ocr_event) list \<Rightarrow> ocr_event list" where
  "events_of i l = map snd (filter (\<lambda>p. fst p = i) l)"

subsection \<open>Interleaving does not change what a request gets\<close>

text \<open>The invariant: reading the unaccepted requests as handlers not yet started,
  request \<open>i\<close>'s handler, run alone from where it stands, adds to the events already
  logged for \<open>i\<close> exactly the route's events, and ends with the route's response;
  no event is logged for a request not yet accepted.\<close>

definition all_handlers :: "server \<Rightarrow> hstate list" where
  "all_handlers s = handlers s @ map HRecv (incoming s)"

definition server_inv :: "ocr_engine \<Rightarrow> uploaded_file list option list \<Rightarrow> server \<Rightarrow> bool" where
  "server_inv ocr reqs s \<longleftrightarrow>
     length (all_handlers s) = length reqs \<and>
     (\<forall>p \<in> set (log s). fst p < length (handlers s)) \<and>
     (\<forall>i < length reqs.
        apfst Some (post_upload_aadhar ocr (reqs ! i)) =
        (fst (hrun ocr (all_handlers s ! i)), events_of i (log s) @ snd (hrun ocr (all_handlers s ! i))))"

lemma events_of_append [simp]: "events_of i (l @ l') = events_of i l @ events_of i l'"
  by (simp add: events_of_def)

lemma events_of_Pair [simp]: "events_of i (map (Pair j) evs) = (if i = j then evs else [])"
  by (simp add: events_of_def comp_def)

lemma events_of_fresh: "\<forall>p \<in> set l. fst p < n \<Longrightarrow> events_of n l = []"
  by (auto simp: events_of_def filter_empty_conv)

lemma server_inv_init: "server_inv ocr reqs (server_init reqs)"
  by (simp add: server_inv_def server_init_def all_handlers_def events_of_def hrun_HRecv apfst_eq)

lemma server_inv_step:
  assumes "server_step ocr s t" "server_inv ocr reqs s"
  shows "server_inv ocr reqs t"
  using assms
proof (induction rule: server_step.induct)
  case (accept s b bs)
  then show ?case
    by (auto simp: server_inv_def all_handlers_def)
next
  case (resume i s h' evs)
  have all: "all_handlers (s\<lparr>handlers := (handlers s)[i := h'], log := log s @ map (Pair i) evs\<rparr>) =
      (all_handlers s)[i := h']" and at: "all_handlers s ! i = handlers s ! i"
    using resume.hyps(1) by (simp_all add: all_handlers_def list_update_append nth_append)
  have run: "hrun ocr (all_handlers s ! i) = (fst (hrun ocr h'), evs @ snd (hrun ocr h'))"
    using resume.hyps(2) at by (simp add: hrun_step)
  show ?case
    using resume.prems resume.hyps(1) run
    unfolding server_inv_def all
    by (auto simp: nth_list_update)
qed

lemma server_inv_reach:
  "(server_step ocr)\<^sup>*\<^sup>* (server_init reqs) s \<Longrightarrow> server_inv ocr reqs s"
  by (induction rule: rtranclp_induct) (auto intro: server_inv_init server_inv_step)

subsection \<open>Every run is finite\<close>

text \<open>The resumptions the server has left at most: each handler's rank, and five
  for a request not yet accepted (its acceptance and four resumptions).\<close>

definition srank :: "server \<Rightarrow> nat" where
  "srank s = sum_list (map hrank (handlers s)) + 5 * length (incoming s)"

lemma server_step_rank: "server_step ocr s t \<Longrightarrow> srank t < srank s"
proof (induction rule: server_step.induct)
  case (accept s b bs)
  then show ?case by (simp add: srank_def)
next
  case (resume i s h' evs)
  let ?ks = "map hrank (handlers s)"
  have lt: "hrank h' < ?ks ! i" and le: "?ks ! i \<le> sum_list ?ks"
    using resume hstep_rank elem_le_sum_list [of i ?ks] by auto
  have "sum_list (?ks[i := hrank h']) = sum_list ?ks + hrank h' - ?ks ! i"
    using resume.hyps(1) by (simp add: sum_list_update)
  with lt le show ?case by (simp add: srank_def map_update)
qed

lemma server_relpow_rank: "(server_step ocr ^^ n) s t \<Longrightarrow> n + srank t \<le> srank s"
proof (induction n arbitrary: s)
  case 0
  then show ?case by simp
next
  case (Suc n)
  then obtain u where "server_step ocr s u" "(server_step ocr ^^ n) u t"
    by (blast elim: relpowp_Suc_E2)
  with Suc.IH [of u] server_step_rank [of ocr s u] show ?case by simp
qed

lemma srank_init: "srank (server_init reqs) = 5 * length reqs"
  by (simp add: srank_def server_init_def)

subsection \<open>No request is left waiting\<close>

lemma server_progress: "\<not> answered s \<Longrightarrow> \<exists>t. server_step ocr s t"
proof -
  assume na: "\<not> answered s"
  show ?thesis
  proof (cases "incoming s")
    case (Cons b bs)
    then show ?thesis by (blast intro: server_step.accept)
  next
    case Nil
    with na obtain i where i: "i < length (handlers s)" "hresponse (handlers s ! i) = None"
      by (auto simp: answered_def list_all_length)
    then have "hstep ocr (handlers s ! i) \<noteq> None"
      by (auto simp: hstep_None_iff)
    then obtain h' evs where "hstep ocr (handlers s ! i) = Some (h', evs)"
      by (metis not_None_eq surj_pair)
    with i show ?thesis by (blast intro: server_step.resume)
  qed
qed

text \<open>A state in which the event loop has nothing left to run.\<close>

lemma server_stuck: "\<not> (\<exists>t. server_step ocr s t) \<Longrightarrow> answered s"
  using server_progress by blast

lemma answered_all_handlers:
  "answered s \<Longrightarrow> i < length (all_handlers s) \<Longrightarrow> \<exists>r. all_handlers s ! i = HDone r"
  by (cases "all_handlers s ! i")
     (auto simp: answered_def all_handlers_def list_all_length)

lemma server_answered_result:
  assumes "server_inv ocr reqs s" "answered s" "i < length reqs"
  shows "hresponse (handlers s ! i) = Some (fst (post_upload_aadhar ocr (reqs ! i)))"
    and "events_of i (log s) = snd (post_upload_aadhar ocr (reqs ! i))"
proof -
  have "\<exists>r. all_handlers s ! i = HDone r"
    using answered_all_handlers [OF assms(2)] assms(1,3) by (simp add: server_inv_def)
  then obtain r where r: "all_handlers s ! i = HDone r" ..
  have "handlers s ! i = HDone r"
    using r assms(2) by (simp add: all_handlers_def answered_def)
  then show "hresponse (handlers s ! i) = Some (fst (post_upload_aadhar ocr (reqs ! i)))"
    and "events_of i (log s) = snd (post_upload_aadhar ocr (reqs ! i))"
    using assms r by (auto simp: server_inv_def apfst_eq)
qed

subsection \<open>Schedules\<close>

text \<open>A schedule names the event loop's choices one by one; \<open>server_run\<close> follows
  it, and is \<open>None\<close> when it names a step that cannot be taken. Every schedule that
  runs is a run of \<open>server_step\<close>.\<close>

datatype sched = Accept | Resume nat

fun sched_step :: "ocr_engine \<Rightarrow> sched \<Rightarrow> server \<Rightarrow> server option" where
  "sched_step ocr Accept s =
     (case incoming s of
        [] \<Rightarrow> None
      | b # bs \<Rightarrow> Some (s\<lparr>handlers := handlers s @ [HRecv b], incoming := bs\<rparr>))"
| "sched_step ocr (Resume i) s =
     (if i < length (handlers s) then
        (case hstep ocr (handlers s ! i) of
           None \<Rightarrow> None
         | Some (h', evs) \<Rightarrow>
             Some (s\<lparr>handlers := (handlers s)[i := h'], log := log s @ map (Pair i) evs\<rparr>))
      else None)"

fun server_run :: "ocr_engine \<Rightarrow> sched list \<Rightarrow> server \<Rightarrow> server option" where
  "server_run ocr [] s = Some s"
| "server_run ocr (c # cs) s =
     (case sched_step ocr c s of None \<Rightarrow> None | Some t \<Rightarrow> server_run ocr cs t)"

lemma sched_step_server_step: "sched_step ocr c s = Some t \<Longrightarrow> server_step ocr s t"
  by (cases c)
     (auto intro: server_step.intros split: list.splits if_splits option.splits)

lemma server_run_relpowp:
  "server_run ocr cs s = Some t \<Longrightarrow> (server_step ocr ^^ length cs) s t"
proof (induction cs arbitrary: s)
  case Nil
  then show ?case by simp
next
  case (Cons c cs)
  then obtain u where "sched_step ocr c s = Some u" "server_run ocr cs u = Some t"
    by (auto split: option.splits)
  then have "server_step ocr s u" "(server_step ocr ^^ length cs) u t"
    by (auto intro: sched_step_server_step Cons.IH)
  then show ?case
    by (simp only: length_Cons) (rule relpowp_Suc_I2)
qed

section \<open>What the event loop promises\<close>

text \<open>A handler run alone from the moment its request is received, resumption
  after resumption, sends the response of the route of \<open>Server\<close> and causes the same
  engine calls in the same order.\<close>

theorem handler_refines_route:
  "hrun ocr (HRecv body) = apfst Some (post_upload_aadhar ocr body)"
  by (rule hrun_HRecv)

text \<open>The event loop cannot run forever: every run of the server, whatever
  order it resumes the handlers in, is finite.\<close>

theorem server_terminates: "wfp (\<lambda>t s. server_step ocr s t)"
  by (rule wfp_if_convertible_to_nat [where f = srank]) (rule server_step_rank)

text \<open>C30: A run from the initial state with \<open>n\<close> requests has at most \<open>5 n\<close>
  steps: one acceptance and four resumptions per request.\<close>

theorem server_run_bounded:
  "(server_step ocr ^^ k) (server_init reqs) s \<Longrightarrow> k \<le> 5 * length reqs"
  using server_relpow_rank [where s = "server_init reqs"] by (fastforce simp: srank_init)

text \<open>C8: Every request is answered: along any run of the event loop from the
  initial state (which may stop only where nothing can run), within \<open>5 n\<close> steps
  every request has been accepted and its handler has sent a response.\<close>

theorem every_request_answered:
  assumes start: "f 0 = server_init reqs"
    and run: "\<And>k. server_step ocr (f k) (f (Suc k)) \<or>
                   ((\<nexists>t. server_step ocr (f k) t) \<and> f (Suc k) = f k)"
  shows "\<exists>k \<le> 5 * length reqs. answered (f k)"
proof (rule ccontr)
  assume none: "\<not> (\<exists>k \<le> 5 * length reqs. answered (f k))"
  have "k \<le> Suc (5 * length reqs) \<Longrightarrow> k + srank (f k) \<le> srank (f 0)" for k
  proof (induction k)
    case 0
    then show ?case by simp
  next
    case (Suc k)
    then have "\<not> answered (f k)" using none by auto
    then have "server_step ocr (f k) (f (Suc k))"
      using run [of k] server_progress by blast
    then have "srank (f (Suc k)) < srank (f k)" by (rule server_step_rank)
    with Suc show ?case by simp
  qed
  from this [of "Suc (5 * length reqs)"] show False
    by (simp add: start srank_init)
qed

text \<open>C10: Interleaving is invisible to each request: in any reachable state in
  which every request is answered, request \<open>i\<close> has the response the route gives it
  alone, and the engine events logged for it are those of its run alone.\<close>

theorem requests_isolated:
  assumes "(server_step ocr)\<^sup>*\<^sup>* (server_init reqs) s" "answered s" "i < length reqs"
  shows "hresponse (handlers s ! i) = Some (fst (post_upload_aadhar ocr (reqs ! i))) \<and>
         events_of i (log s) = snd (post_upload_aadhar ocr (reqs ! i))"
  using server_answered_result [OF server_inv_reach [OF assms(1)] assms(2,3)] by simp

subsection \<open>Witnesses\<close>

text \<open>An engine that cannot read any image; a request with both sides and a request
  that is not multipart; a schedule that interleaves their handlers.\<close>

abbreviation demo_engine :: ocr_engine where
  "demo_engine \<equiv> \<lambda>_. Inl (Error ''unreadable'')"

abbreviation demo_reqs :: "uploaded_file list option list" where
  "demo_reqs \<equiv>
     [Some [\<lparr>fieldname = ''frontSide'', mimetype = ''image/png'', fsize = 1, buffer = [1]\<rparr>,
            \<lparr>fieldname = ''backSide'', mimetype = ''image/png'', fsize = 1, buffer = [2]\<rparr>],
      None]"

abbreviation demo_final :: server where
  "demo_final \<equiv>
     \<lparr>handlers = [HDone (fail_response (Error ''unreadable'')),
                  HDone (fail_response (TypeError ''frontSide''))],
      incoming = [], log = [(0, OCRStart [1]), (0, OCRFail [1])]\<rparr>"

lemma demo_run:
  "server_run demo_engine [Accept, Accept, Resume 0, Resume 1, Resume 0, Resume 1, Resume 0]
     (server_init demo_reqs) = Some demo_final"
  by (simp add: server_init_def fileFilter_def allowedTypes_def fileSize_limit_def
      upload_fields_def field_files_def file_index_def get_buffer_def)

theorem requests_isolated_witness:
  "(server_step demo_engine)\<^sup>*\<^sup>* (server_init demo_reqs) demo_final \<and> answered demo_final \<and>
   hresponse (handlers demo_final ! 0) = Some (fst (post_upload_aadhar demo_engine (demo_reqs ! 0))) \<and>
   events_of 0 (log demo_final) = snd (post_upload_aadhar demo_engine (demo_reqs ! 0))"
proof -
  have reach: "(server_step demo_engine)\<^sup>*\<^sup>* (server_init demo_reqs) demo_final"
    using server_run_relpowp [OF demo_run] by (rule relpowp_imp_rtranclp)
  have ans: "answered demo_final" by (simp add: answered_def)
  show ?thesis
    using requests_isolated [OF reach ans, of 0] reach ans by simp
qed

theorem server_run_bounded_witness:
  "(server_step demo_engine ^^ 7) (server_init demo_reqs) demo_final \<and> (7::nat) \<le> 5 * length demo_reqs"
proof -
  have len: "length [Accept, Accept, Resume 0, Resume 1, Resume 0, Resume 1, Resume 0] = (7::nat)"
    by simp
  note r = server_run_relpowp [OF demo_run, unfolded len]
  show ?thesis
    by (rule conjI [OF r]) (insert server_run_bounded [OF r], simp)
qed

text \<open>A request that is not multipart, run to its response and then idle.\<close>

abbreviation demo_states :: "server list" where
  "demo_states \<equiv>
     [server_init [None],
      \<lparr>handlers = [HRecv None], incoming = [], log = []\<rparr>,
      \<lparr>handlers = [HStart None], incoming = [], log = []\<rparr>,
      \<lparr>handlers = [HDone (fail_response (TypeError ''frontSide''))], incoming = [], log = []\<rparr>]"

lemma demo_states_run:
  "server_step demo_engine (demo_states ! min k 3) (demo_states ! min (Suc k) 3) \<or>
   ((\<nexists>t. server_step demo_engine (demo_states ! min k 3) t) \<and>
    demo_states ! min (Suc k) 3 = demo_states ! min k 3)"
proof -
  have s0: "sched_step demo_engine Accept (demo_states ! 0) = Some (demo_states ! 1)"
    by (simp add: server_init_def)
  have s1: "sched_step demo_engine (Resume 0) (demo_states ! 1) = Some (demo_states ! 2)"
    by simp
  have s2: "sched_step demo_engine (Resume 0) (demo_states ! 2) = Some (demo_states ! 3)"
    by (simp add: file_index_def)
  have s3: "\<nexists>t. server_step demo_engine (demo_states ! 3) t"
    by (auto elim: server_stepE)
  consider "k = 0" | "k = 1" | "k = 2" | "3 \<le> k" by linarith
  then show ?thesis
  proof cases
    case 1
    then show ?thesis using sched_step_server_step [OF s0] by simp
  next
    case 2
    then show ?thesis using sched_step_server_step [OF s1] by simp
  next
    case 3
    then show ?thesis using sched_step_server_step [OF s2] by (simp add: numeral_eq_Suc)
  next
    case 4
    then show ?thesis using s3 by (simp add: min_absorb2)
  qed
qed

theorem every_request_answered_witness:
  "\<exists>k \<le> 5 * length [None :: uploaded_file list option]. answered (demo_states ! min k 3)"
  by (rule every_request_answered [where f = "\<lambda>k. demo_states ! min k 3" and ocr = demo_engine])
     (simp, rule demo_states_run)

end
