(* ===== verification/App.thy ===== *)
theory App
  imports Server
begin

text \<open>
  The Express application of \<open>src/server.js\<close>: the application created at line 7,
  its middleware stack \<open>cors()\<close> (line 9) and \<open>express.json()\<close> (line 10), the route
  \<open>POST /upload-aadhar\<close> (line 29), the error middleware (line 93), and the port it
  listens on (lines 101--104). The framework's own behaviour is modelled from its
  documentation: \<open>express()\<close> sets \<open>X-Powered-By\<close>; \<open>cors()\<close> with no options
  allows every origin and answers a preflight \<open>OPTIONS\<close> request itself with 204;
  \<open>express.json()\<close> parses a JSON body and passes its parse error to the error
  middleware; a route path matches case-insensitively with an optional trailing
  slash; a request no route takes is answered 404 by the final handler. A request's
  JSON body is given by the outcome of parsing it, as the OCR engine is given by its
  results. The headers modelled are those the application's configuration sets.
\<close>

section \<open>Requests and responses\<close>

text \<open>The body of a request as the middleware see it: none, a JSON body (with the
  error of parsing it, if any), a multipart body (its file parts), or a body of
  another type, which neither parser reads.\<close>

datatype req_body = NoBody | JsonBody "js_error option" | MultipartBody "uploaded_file list" | OtherBody

record http_request =
  req_method :: string
  req_path :: string
  req_acrh :: "string option"    \<comment> \<open>the \<open>Access-Control-Request-Headers\<close> header\<close>
  req_body :: req_body

datatype app_body = RouteBody body | EmptyBody | NotFoundPage string

datatype http_response = HttpResponse nat "(string \<times> string) list" app_body

section \<open>The middleware stack (lines 7--10, 29, 93)\<close>

text \<open>\<open>express()\<close>: its initial middleware sets \<open>X-Powered-By\<close> on every response.\<close>

definition x_powered_by :: "(string \<times> string) list" where
  "x_powered_by = [(''X-Powered-By'', ''Express'')]"

text \<open>\<open>cors()\<close> with its defaults (origin \<open>*\<close>, the six default methods, the
  request's headers reflected, no credentials, status 204 for a preflight).\<close>

definition cors_methods :: string where
  "cors_methods = ''GET,HEAD,PUT,PATCH,POST,DELETE''"

definition cors_headers :: "(string \<times> string) list" where
  "cors_headers = [(''Access-Control-Allow-Origin'', ''*'')]"

definition cors_preflight_headers :: "http_request \<Rightarrow> (string \<times> string) list" where
  "cors_preflight_headers req =
     cors_headers @ [(''Access-Control-Allow-Methods'', cors_methods),
                     (''Vary'', ''Access-Control-Request-Headers'')] @
     (case req_acrh req of
        Some h \<Rightarrow> if h = [] then [] else [(''Access-Control-Allow-Headers'', h)]
      | None \<Rightarrow> []) @
     [(''Content-Length'', ''0'')]"

text \<open>The route path \<open>/upload-aadhar\<close> compiled as Express compiles it:
  \<open>^\/upload-aadhar\/?$\<close> with the \<open>i\<close> flag.\<close>

definition route_path :: string where
  "route_path = ''/upload-aadhar''"

definition path_matches :: "string \<Rightarrow> string \<Rightarrow> bool" where
  "path_matches route p \<longleftrightarrow> map canon p = map canon route \<or> map canon p = map canon (route @ ''/'')"

text \<open>What \<open>express.json()\<close> and multer take from the body.\<close>

fun json_error :: "req_body \<Rightarrow> js_error option" where
  "json_error (JsonBody e) = e"
| "json_error _ = None"

fun multipart_parts :: "req_body \<Rightarrow> uploaded_file list option" where
  "multipart_parts (MultipartBody parts) = Some parts"
| "multipart_parts _ = None"

fun to_http :: "(string \<times> string) list \<Rightarrow> response \<Rightarrow> http_response" where
  "to_http hs (Response code b) = HttpResponse code hs (RouteBody b)"

text \<open>The application: \<open>cors()\<close> answers a preflight itself; otherwise it sets its
  header and passes on; \<open>express.json()\<close> passes a parse error to the error
  middleware (line 93), skipping the route; the route takes a \<open>POST\<close> to its path
  (multer, then the handler); any other request reaches the final handler's 404.\<close>

definition app_handle :: "ocr_engine \<Rightarrow> http_request \<Rightarrow> http_response \<times> ocr_event list" where
  "app_handle ocr req =
     (if req_method req = ''OPTIONS''
      then (HttpResponse 204 (x_powered_by @ cors_preflight_headers req) EmptyBody, [])
      else
        (case json_error (req_body req) of
           Some e \<Rightarrow> (to_http (x_powered_by @ cors_headers) (error_middleware e), [])
         | None \<Rightarrow>
             if req_method req = ''POST'' \<and> path_matches route_path (req_path req)
             then (case post_upload_aadhar ocr (multipart_parts (req_body req)) of
                     (r, tr) \<Rightarrow> (to_http (x_powered_by @ cors_headers) r, tr))
             else (HttpResponse 404 (x_powered_by @ cors_headers)
                     (NotFoundPage (''Cannot '' @ req_method req @ '' '' @ req_path req)), [])))"

section \<open>The port (lines 101--104)\<close>

text \<open>What \<open>app.listen(PORT)\<close> does with \<open>process.env.PORT || 8080\<close>: an unset or
  empty variable gives the number 8080; a decimal numeral of value 0 lets the system
  choose a free port (\<open>ListenAnyPort\<close>), one from 1 to 65535 is that TCP port, and
  otherwise Node's port check throws (\<open>ERR_SOCKET_BAD_PORT\<close>). Any other
  string is converted by Node with \<open>Number()\<close> into a port or taken as a pipe path,
  which is not modelled.\<close>

datatype listen_outcome = ListenTcp nat | ListenAnyPort | ListenBadPort nat | ListenNumber string

definition digits_value :: "string \<Rightarrow> nat" where
  "digits_value s = foldl (\<lambda>n c. 10 * n + (of_char c - 48)) 0 s"

definition listen_port :: "string option \<Rightarrow> listen_outcome" where
  "listen_port env =
     (case env of
        None \<Rightarrow> ListenTcp 8080
      | Some p \<Rightarrow>
          if p = [] then ListenTcp 8080
          else if list_all is_digit p
          then (if digits_value p = 0 then ListenAnyPort
                else if digits_value p < 65536 then ListenTcp (digits_value p)
                else ListenBadPort (digits_value p))
          else ListenNumber p)"

text \<open>The decimal numeral of a number, to state the round trip.\<close>

fun decimal :: "nat \<Rightarrow> string" where
  "decimal n = (if n < 10 then [char_of (48 + n)] else decimal (n div 10) @ [char_of (48 + n mod 10)])"

declare decimal.simps [simp del]

section \<open>Properties of the application\<close>

lemma digit_char_of: "k < 10 \<Longrightarrow> of_char (char_of (48 + k) :: char) = (48 + k :: nat)"
  by (simp add: of_char_of)

lemma decimal_digits: "list_all is_digit (decimal n) \<and> decimal n \<noteq> []"
proof (induction n rule: decimal.induct)
  case (1 n)
  have "is_digit (char_of (48 + n mod 10))" "n < 10 \<Longrightarrow> is_digit (char_of (48 + n))"
    by (simp_all add: is_digit_def digit_char_of)
  with 1 show ?case by (simp add: decimal.simps [of n])
qed

lemma digits_value_snoc: "digits_value (xs @ [c]) = 10 * digits_value xs + (of_char c - 48)"
  by (simp add: digits_value_def)

lemma digits_value_decimal: "digits_value (decimal n) = n"
proof (induction n rule: decimal.induct)
  case (1 n)
  show ?case
  proof (cases "n < 10")
    case True
    then show ?thesis by (subst decimal.simps) (simp add: digits_value_def digit_char_of)
  next
    case False
    then have "digits_value (decimal n) = 10 * (n div 10) + n mod 10"
      using 1 by (subst decimal.simps) (simp add: digits_value_snoc digit_char_of)
    then show ?thesis by simp
  qed
qed

fun http_headers :: "http_response \<Rightarrow> (string \<times> string) list" where
  "http_headers (HttpResponse _ hs _) = hs"

lemma http_headers_to_http [simp]: "http_headers (to_http hs r) = hs"
  by (cases r) simp

lemma post_upload_aadhar_None_events: "snd (post_upload_aadhar ocr None) = []"
  by (simp add: post_upload_aadhar_def upload_aadhar_def file_index_def)

lemma app_handle_cases:
  "app_handle ocr req =
     (if req_method req = ''OPTIONS''
      then (HttpResponse 204 (x_powered_by @ cors_preflight_headers req) EmptyBody, [])
      else if json_error (req_body req) \<noteq> None
      then (to_http (x_powered_by @ cors_headers) (error_middleware (the (json_error (req_body req)))), [])
      else if req_method req = ''POST'' \<and> path_matches route_path (req_path req)
      then (to_http (x_powered_by @ cors_headers) (fst (post_upload_aadhar ocr (multipart_parts (req_body req)))),
            snd (post_upload_aadhar ocr (multipart_parts (req_body req))))
      else (HttpResponse 404 (x_powered_by @ cors_headers)
              (NotFoundPage (''Cannot '' @ req_method req @ '' '' @ req_path req)), []))"
  by (simp add: app_handle_def split: option.split prod.split)

text \<open>A \<open>POST\<close> to the route's path (in any letter case, with or without a
  trailing slash) whose body is not malformed JSON is handled by the upload
  middleware and the route, and gets their response with the application's
  headers.\<close>

theorem app_upload_route:
  assumes "req_method req = ''POST''" "path_matches route_path (req_path req)"
    and "json_error (req_body req) = None"
  shows "app_handle ocr req =
    (to_http (x_powered_by @ cors_headers) (fst (post_upload_aadhar ocr (multipart_parts (req_body req)))),
     snd (post_upload_aadhar ocr (multipart_parts (req_body req))))"
  using assms by (simp add: app_handle_cases)

text \<open>C9: The OCR engine is called only for a multipart \<open>POST\<close> to the route's
  path: a preflight, a malformed JSON body, a request to another path or with
  another method, and a body that is not multipart never reach it.\<close>

theorem app_engine_only_on_route:
  "snd (app_handle ocr req) \<noteq> [] \<Longrightarrow>
   req_method req = ''POST'' \<and> path_matches route_path (req_path req) \<and>
   (\<exists>parts. req_body req = MultipartBody parts)"
  by (cases "req_body req")
     (auto simp: app_handle_cases post_upload_aadhar_None_events split: if_splits)

text \<open>C31: A malformed JSON body is answered by the error middleware with 500 and
  ``Something went wrong!'', on every path, whether or not a route serves it, and
  without any engine call: the parser's client error is reported as a server
  error.\<close>

theorem app_json_error:
  "req_method req \<noteq> ''OPTIONS'' \<Longrightarrow> req_body req = JsonBody (Some e) \<Longrightarrow>
   app_handle ocr req =
     (HttpResponse 500 (x_powered_by @ cors_headers)
        (RouteBody (ErrBody ''Something went wrong!'' (err_message e))), [])"
  by (simp add: app_handle_cases error_middleware_def)

text \<open>Every response of the application, preflight, error, route response or
  404, allows every origin.\<close>

theorem app_cors_everywhere:
  "(''Access-Control-Allow-Origin'', ''*'') \<in> set (http_headers (fst (app_handle ocr req)))"
  by (simp add: app_handle_cases cors_preflight_headers_def cors_headers_def)

text \<open>C32: Setting \<open>PORT\<close> to the decimal numeral of a number from 1 to 65535
  makes the server listen on that TCP port (0 instead lets the system choose one).\<close>

theorem listen_port_decimal:
  "0 < n \<Longrightarrow> n < 65536 \<Longrightarrow> listen_port (Some (decimal n)) = ListenTcp n"
  using decimal_digits [of n] by (simp add: listen_port_def digits_value_decimal)

subsection \<open>Witnesses\<close>

lemma path_matches_variant: "path_matches route_path ''/Upload-Aadhar/''"
  by code_simp

theorem app_upload_route_witness:
  "app_handle (\<lambda>_. Inl (Error ''unreadable''))
     \<lparr>req_method = ''POST'', req_path = ''/Upload-Aadhar/'', req_acrh = None, req_body = MultipartBody []\<rparr> =
   (to_http (x_powered_by @ cors_headers) (fst (post_upload_aadhar (\<lambda>_. Inl (Error ''unreadable'')) (Some []))),
    snd (post_upload_aadhar (\<lambda>_. Inl (Error ''unreadable'')) (Some [])))"
  using app_upload_route [where ocr = "\<lambda>_. Inl (Error ''unreadable'')" and
      req = "\<lparr>req_method = ''POST'', req_path = ''/Upload-Aadhar/'', req_acrh = None, req_body = MultipartBody []\<rparr>"]
    path_matches_variant
  by simp

theorem app_engine_only_on_route_witness:
  "snd (app_handle (\<lambda>_. Inl (Error ''unreadable''))
     \<lparr>req_method = ''POST'', req_path = ''/upload-aadhar'', req_acrh = None,
      req_body = MultipartBody
        [\<lparr>fieldname = ''frontSide'', mimetype = ''image/png'', fsize = 1, buffer = [1]\<rparr>,
         \<lparr>fieldname = ''backSide'', mimetype = ''image/png'', fsize = 1, buffer = [2]\<rparr>]\<rparr>) =
     [OCRStart [1], OCRFail [1]] \<and>
   ''POST'' = ''POST'' \<and> path_matches route_path ''/upload-aadhar''"
proof -
  let ?req = "\<lparr>req_method = ''POST'', req_path = ''/upload-aadhar'', req_acrh = None,
      req_body = MultipartBody
        [\<lparr>fieldname = ''frontSide'', mimetype = ''image/png'', fsize = 1, buffer = [1]\<rparr>,
         \<lparr>fieldname = ''backSide'', mimetype = ''image/png'', fsize = 1, buffer = [2]\<rparr>]\<rparr>"
  have ev: "snd (app_handle (\<lambda>_. Inl (Error ''unreadable'')) ?req) = [OCRStart [1], OCRFail [1]]"
    by (simp add: app_handle_cases path_matches_def route_path_def post_upload_aadhar_def
        upload_aadhar_def performOCR_def fileFilter_def allowedTypes_def fileSize_limit_def
        upload_fields_def field_files_def file_index_def get_buffer_def)
  show ?thesis
    using app_engine_only_on_route [where ocr = "\<lambda>_. Inl (Error ''unreadable'')" and req = ?req] ev
    by simp
qed

theorem app_json_error_witness:
  "app_handle (\<lambda>_. Inl (Error ''unreadable'')) \<lparr>req_method = ''POST'', req_path = ''/nowhere'', req_acrh = None,
                   req_body = JsonBody (Some (Error ''Unexpected token'')) \<rparr> =
     (HttpResponse 500 (x_powered_by @ cors_headers)
        (RouteBody (ErrBody ''Something went wrong!'' ''Unexpected token'')), [])"
  using app_json_error [where ocr = "\<lambda>_. Inl (Error ''unreadable'')" and e = "Error ''Unexpected token''" and
      req = "\<lparr>req_method = ''POST'', req_path = ''/nowhere'', req_acrh = None,
             req_body = JsonBody (Some (Error ''Unexpected token''))\<rparr>"]
  by simp

theorem listen_port_decimal_witness: "decimal 3000 = ''3000'' \<and> listen_port (Some ''3000'') = ListenTcp 3000"
proof -
  have d: "decimal 3000 = ''3000''"
    by code_simp
  show ?thesis
    using listen_port_decimal [of 3000] d by simp
qed

end
