(* ===== verification/Logging.thy ===== *)
theory Logging
  imports App
begin

text \<open>
  The diagnostic output of the program: the \<open>console.log\<close> and \<open>console.error\<close>
  calls of \<open>extractAddress\<close> (DetailsExtraction.js lines 35--37), of \<open>performOCR\<close>
  (server.js lines 55 and 64), of the route (lines 36, 39 and 42) and of the error
  middleware (line 94), and the start-up message (line 103). Each function that writes is modelled again with its output:
  it returns its value paired with the lines it wrote, in order, and a caller appends
  its callees' lines where the call happens, as a writer computation does. A line is
  the list of the values passed to \<open>console\<close>; how Node formats them is not modelled.
  The engine's progress messages, which Tesseract hands to the \<open>logger\<close> option, are
  given by a function of the image, as the engine's result is. The theory proves that
  the output changes nothing else (erasing it gives the functions of \<open>Details\<close> and
  \<open>Server\<close>), and what it discloses.
\<close>

section \<open>Output lines\<close>

text \<open>The values the program passes to \<open>console\<close>: strings, the address pattern, a
  match result (with the text it was taken from), a recognised side, the assembled
  record, an exception (its \<open>stack\<close> for the error middleware), and the engine's
  progress messages.\<close>

datatype log_value =
    LStr string
  | LRegex regex
  | LMatch string "match_result option"
  | LSide recognized_side
  | LDetails aadhar_details
  | LError js_error
  | LStack js_error
  | LProgress string

datatype log_line = Stdout "log_value list" | Stderr "log_value list"

type_synonym ocr_logger = "buffer \<Rightarrow> string list"

section \<open>The functions that write\<close>

text \<open>\<open>extractAddress\<close> (lines 29--46) with its three \<open>console.log\<close> calls, which
  come after the match and before the result is built.\<close>

definition extractAddress_logged :: "string \<Rightarrow> string option \<times> log_line list" where
  "extractAddress_logged raw =
     (let mt = js_match False address_regex raw;
          out = [Stdout [LStr ''Raw text:'', LStr raw],
                 Stdout [LStr ''Regex used:'', LRegex address_regex],
                 Stdout [LStr ''Match result:'', LMatch raw mt]]
      in (case mt of
            None \<Rightarrow> None
          | Some r \<Rightarrow>
              (case (group_text raw r 1, group_text raw r 2) of
                 (Some nm, Some loc) \<Rightarrow> Some (js_trim nm @ '', '' @ js_trim loc)
               | _ \<Rightarrow> None), out))"

text \<open>\<open>extractAadharDetails\<close> (lines 1--11): only the address extractor writes.\<close>

definition extractAadharDetails_logged ::
  "recognized_side \<Rightarrow> recognized_side \<Rightarrow> aadhar_details \<times> log_line list" where
  "extractAadharDetails_logged front back =
     (case extractAddress_logged (rawText back) of
        (addr, out) \<Rightarrow>
          (\<lparr>det_aadharNumber = js_or (js_or (aadharNumber front) (aadharNumber back)) None,
            det_name = extractName_details (rawText front) (name front),
            dob = extractDOB (rawText front),
            gender = extractGender (rawText front),
            address = addr,
            pin = extractPin (rawText back)\<rparr>, out))"

text \<open>\<open>performOCR\<close> (lines 50--67): the engine's progress messages go to
  \<open>console.log\<close> through the \<open>logger\<close> option; the \<open>catch\<close> writes the error to
  \<open>console.error\<close> before rethrowing it.\<close>

definition performOCR_logged ::
  "ocr_engine \<Rightarrow> ocr_logger \<Rightarrow> buffer \<Rightarrow> ocr_event list \<Rightarrow>
   ((js_error + recognized_side) \<times> ocr_event list) \<times> log_line list" where
  "performOCR_logged ocr prog buf tr =
     (let progress = map (\<lambda>msg. Stdout [LProgress msg]) (prog buf) in
      case ocr buf of
        Inl e \<Rightarrow> ((Inl e, tr @ [OCRStart buf, OCRFail buf]),
                  progress @ [Stderr [LStr ''OCR Processing Error:'', LError e]])
      | Inr text \<Rightarrow> ((Inr (cleanOCRText text), tr @ [OCRStart buf, OCRDone buf]), progress))"

text \<open>The route's \<open>catch\<close> (line 42).\<close>

definition route_error_line :: "js_error \<Rightarrow> log_line" where
  "route_error_line e = Stderr [LStr ''Upload and OCR error:'', LError e]"

text \<open>The route (lines 29--48) with its output: the engine's lines of each side,
  then the two recognised sides (line 36), the address extractor's lines, the
  record (line 39); on an exception, the \<open>catch\<close>'s line.\<close>

definition upload_aadhar_logged ::
  "ocr_engine \<Rightarrow> ocr_logger \<Rightarrow> req_files option \<Rightarrow> (response \<times> ocr_event list) \<times> log_line list" where
  "upload_aadhar_logged ocr prog rf =
     (case file_index rf ''frontSide'' of
        Inl e \<Rightarrow> ((fail_response e, []), [route_error_line e])
      | Inr frontSide \<Rightarrow>
     (case file_index rf ''backSide'' of
        Inl e \<Rightarrow> ((fail_response e, []), [route_error_line e])
      | Inr backSide \<Rightarrow>
     (case get_buffer frontSide of
        Inl e \<Rightarrow> ((fail_response e, []), [route_error_line e])
      | Inr fb \<Rightarrow>
     (case performOCR_logged ocr prog fb [] of
        ((Inl e, tr), out1) \<Rightarrow> ((fail_response e, tr), out1 @ [route_error_line e])
      | ((Inr frontOCR, tr), out1) \<Rightarrow>
     (case get_buffer backSide of
        Inl e \<Rightarrow> ((fail_response e, tr), out1 @ [route_error_line e])
      | Inr bb \<Rightarrow>
     (case performOCR_logged ocr prog bb tr of
        ((Inl e, tr'), out2) \<Rightarrow> ((fail_response e, tr'), out1 @ out2 @ [route_error_line e])
      | ((Inr backOCR, tr'), out2) \<Rightarrow>
     (case extractAadharDetails_logged frontOCR backOCR of
        (data, out3) \<Rightarrow>
          ((Response 200 (DocBody data), tr'),
           out1 @ out2 @ [Stdout [LSide frontOCR, LSide backOCR]] @ out3 @
           [Stdout [LDetails data]]))))))))"

text \<open>The error middleware (lines 93--99) writes the error's stack.\<close>

definition error_middleware_logged :: "js_error \<Rightarrow> response \<times> log_line list" where
  "error_middleware_logged err = (error_middleware err, [Stderr [LStack err]])"

definition post_upload_aadhar_logged ::
  "ocr_engine \<Rightarrow> ocr_logger \<Rightarrow> uploaded_file list option \<Rightarrow> (response \<times> ocr_event list) \<times> log_line list" where
  "post_upload_aadhar_logged ocr prog body =
     (case body of
        None \<Rightarrow> upload_aadhar_logged ocr prog None
      | Some parts \<Rightarrow>
          (case multer_parts upload_fields parts Map.empty of
             Inl e \<Rightarrow> (case error_middleware_logged e of (r, out) \<Rightarrow> ((r, []), out))
           | Inr files \<Rightarrow> upload_aadhar_logged ocr prog (Some files)))"

text \<open>\<open>app.listen(PORT, callback)\<close> (lines 101--104): once the server listens, the
  callback writes the port, the template literal showing \<open>PORT\<close> as set or the
  number 8080; a bad port throws before the callback can run.\<close>

definition listen_logged :: "string option \<Rightarrow> listen_outcome \<times> log_line list" where
  "listen_logged env =
     (let port_text = (case env of None \<Rightarrow> ''8080'' | Some p \<Rightarrow> if p = [] then ''8080'' else p) in
      case listen_port env of
        ListenBadPort n \<Rightarrow> (ListenBadPort n, [])
      | t \<Rightarrow> (t, [Stdout [LStr (''Server running on port '' @ port_text)]]))"

section \<open>The output changes nothing else\<close>

lemma extractAddress_logged_fst: "fst (extractAddress_logged raw) = extractAddress raw"
  by (simp add: extractAddress_logged_def extractAddress_def Let_def)

lemma extractAadharDetails_logged_fst:
  "fst (extractAadharDetails_logged front back) = extractAadharDetails front back"
  by (simp add: extractAadharDetails_logged_def extractAadharDetails_def split_def
      extractAddress_logged_fst)

lemma listen_logged_fst: "fst (listen_logged env) = listen_port env"
  by (simp add: listen_logged_def Let_def split: listen_outcome.split)

lemma performOCR_logged_fst: "fst (performOCR_logged ocr prog buf tr) = performOCR ocr buf tr"
  by (simp add: performOCR_logged_def performOCR_def Let_def split: sum.split)

lemma upload_aadhar_logged_fst: "fst (upload_aadhar_logged ocr prog rf) = upload_aadhar ocr rf"
  by (simp add: upload_aadhar_logged_def upload_aadhar_def performOCR_logged_def performOCR_def
      Let_def split_def extractAadharDetails_logged_fst split: sum.split)

lemma upload_aadhar_logged_Some_out:
  assumes "fs ''frontSide'' = Some (ff # ffs)" "fs ''backSide'' = Some (bf # bfs)"
  shows "snd (upload_aadhar_logged ocr prog (Some fs)) =
    (case ocr (buffer ff) of
       Inl e \<Rightarrow> map (\<lambda>msg. Stdout [LProgress msg]) (prog (buffer ff)) @
                [Stderr [LStr ''OCR Processing Error:'', LError e], route_error_line e]
     | Inr tf \<Rightarrow>
         (case ocr (buffer bf) of
            Inl e \<Rightarrow> map (\<lambda>msg. Stdout [LProgress msg]) (prog (buffer ff)) @
                     map (\<lambda>msg. Stdout [LProgress msg]) (prog (buffer bf)) @
                     [Stderr [LStr ''OCR Processing Error:'', LError e], route_error_line e]
          | Inr tb \<Rightarrow> map (\<lambda>msg. Stdout [LProgress msg]) (prog (buffer ff)) @
                     map (\<lambda>msg. Stdout [LProgress msg]) (prog (buffer bf)) @
                     [Stdout [LSide (cleanOCRText tf), LSide (cleanOCRText tb)]] @
                     snd (extractAadharDetails_logged (cleanOCRText tf) (cleanOCRText tb)) @
                     [Stdout [LDetails (extractAadharDetails (cleanOCRText tf) (cleanOCRText tb))]]))"
  using assms
  by (simp add: upload_aadhar_logged_def file_index_def get_buffer_def performOCR_logged_def
      Let_def split_def extractAadharDetails_logged_fst split: sum.split)

section \<open>What the output shows\<close>

text \<open>Writing the diagnostic output changes nothing else: with its output
  erased, the instrumented request is the request of \<open>Server\<close>, the same response
  and the same engine calls.\<close>

theorem logging_transparent:
  "fst (post_upload_aadhar_logged ocr prog body) = post_upload_aadhar ocr body"
  by (simp add: post_upload_aadhar_logged_def post_upload_aadhar_def error_middleware_logged_def
      upload_aadhar_logged_fst split: option.split sum.split)

text \<open>C28: A request answered 200 has written its whole record to standard output as
  the last line, the national identity number included, after the two recognised
  sides it was assembled from and the back side's raw text.\<close>

theorem route_logs_record:
  assumes "fst (fst (upload_aadhar_logged ocr prog rf)) = Response 200 (DocBody d)"
  shows "last (snd (upload_aadhar_logged ocr prog rf)) = Stdout [LDetails d] \<and>
    (\<exists>f b. d = extractAadharDetails f b \<and>
       Stdout [LSide f, LSide b] \<in> set (snd (upload_aadhar_logged ocr prog rf)) \<and>
       Stdout [LStr ''Raw text:'', LStr (rawText b)] \<in> set (snd (upload_aadhar_logged ocr prog rf)))"
proof -
  obtain f b tr out1 out2 where
    eq: "upload_aadhar_logged ocr prog rf =
      ((Response 200 (DocBody (fst (extractAadharDetails_logged f b))), tr),
       out1 @ out2 @ [Stdout [LSide f, LSide b]] @ snd (extractAadharDetails_logged f b) @
       [Stdout [LDetails (fst (extractAadharDetails_logged f b))]])"
    using assms
    by (auto simp: upload_aadhar_logged_def performOCR_logged_def Let_def split_def fail_response_def
        split: sum.splits)
  then have d: "d = extractAadharDetails f b"
    using assms by (simp add: extractAadharDetails_logged_fst)
  have "Stdout [LStr ''Raw text:'', LStr (rawText b)] \<in> set (snd (extractAadharDetails_logged f b))"
    by (simp add: extractAadharDetails_logged_def extractAddress_logged_def Let_def split_def)
  with eq d show ?thesis
    by (auto simp: extractAadharDetails_logged_fst)
qed

text \<open>C29: An engine fault on the front image is written twice to standard error,
  once by the \<open>catch\<close> of \<open>performOCR\<close> and once by the route's, after the
  engine's progress messages; nothing else is written.\<close>

theorem engine_fault_logged_twice:
  "fs ''frontSide'' = Some (ff # ffs) \<Longrightarrow> fs ''backSide'' = Some (bf # bfs) \<Longrightarrow>
   ocr (buffer ff) = Inl e \<Longrightarrow>
   snd (upload_aadhar_logged ocr prog (Some fs)) =
     map (\<lambda>msg. Stdout [LProgress msg]) (prog (buffer ff)) @
     [Stderr [LStr ''OCR Processing Error:'', LError e],
      Stderr [LStr ''Upload and OCR error:'', LError e]]"
  by (simp add: upload_aadhar_logged_Some_out route_error_line_def)

subsection \<open>Witnesses\<close>

abbreviation demo_files :: req_files where
  "demo_files \<equiv>
     [''frontSide'' \<mapsto> [\<lparr>fieldname = ''frontSide'', mimetype = ''image/png'', fsize = 1, buffer = [1]\<rparr>],
      ''backSide'' \<mapsto> [\<lparr>fieldname = ''backSide'', mimetype = ''image/png'', fsize = 1, buffer = [2]\<rparr>]]"

theorem route_logs_record_witness:
  "fst (fst (upload_aadhar_logged (\<lambda>_. Inr []) (\<lambda>_. []) (Some demo_files))) =
     Response 200 (DocBody (extractAadharDetails (cleanOCRText []) (cleanOCRText []))) \<and>
   last (snd (upload_aadhar_logged (\<lambda>_. Inr []) (\<lambda>_. []) (Some demo_files))) =
     Stdout [LDetails (extractAadharDetails (cleanOCRText []) (cleanOCRText []))]"
proof -
  have ok: "fst (fst (upload_aadhar_logged (\<lambda>_. Inr []) (\<lambda>_. []) (Some demo_files))) =
     Response 200 (DocBody (extractAadharDetails (cleanOCRText []) (cleanOCRText [])))"
    by (simp add: upload_aadhar_logged_fst upload_aadhar_def file_index_def get_buffer_def
        performOCR_def)
  show ?thesis
    using route_logs_record [OF ok] ok by simp
qed

theorem engine_fault_logged_twice_witness:
  "snd (upload_aadhar_logged (\<lambda>_. Inl (Error ''corrupt image'')) (\<lambda>_. [''recognizing text''])
     (Some demo_files)) =
   [Stdout [LProgress ''recognizing text''],
    Stderr [LStr ''OCR Processing Error:'', LError (Error ''corrupt image'')],
    Stderr [LStr ''Upload and OCR error:'', LError (Error ''corrupt image'')]]"
  using engine_fault_logged_twice [of demo_files
      "\<lparr>fieldname = ''frontSide'', mimetype = ''image/png'', fsize = 1, buffer = [1]\<rparr>" "[]"
      "\<lparr>fieldname = ''backSide'', mimetype = ''image/png'', fsize = 1, buffer = [2]\<rparr>" "[]"
      "\<lambda>_. Inl (Error ''corrupt image'')" "Error ''corrupt image''" "\<lambda>_. [''recognizing text'']"]
  by simp

end
