(* ===== verification/RegExp_Fuel.thy ===== *)
theory RegExp_Fuel
  imports RegExp
begin

text \<open>
  The fuel of \<open>rep_loop\<close> is never what ends a repetition. A matcher is
  local when its result depends on its continuation only at the states it can
  hand it, those whose end index lies between the start and the end of the input
  (\<open>local_m\<close>); every matcher of a pattern is local (\<open>local_m\<close>). For a local
  atom, one more unit of fuel than \<open>rep_fuel\<close> changes nothing, because every
  iteration past the minimum consumes a character; so any fuel from
  \<open>rep_fuel\<close> up gives the same result, which is the result of the unbounded
  RepeatMatcher of ECMA-262 (\<open>m_fuel_adequate\<close>).
\<close>

text \<open>Two continuations that agree from a state to the end of the input.\<close>

definition agree_from :: "string \<Rightarrow> mstate \<Rightarrow> cont \<Rightarrow> cont \<Rightarrow> bool" where
  "agree_from s x k k' \<longleftrightarrow>
     (\<forall>y. fst x \<le> fst y \<and> fst y \<le> max (fst x) (length s) \<longrightarrow> k y = k' y)"

definition local_m :: "string \<Rightarrow> matcher \<Rightarrow> bool" where
  "local_m s M \<longleftrightarrow> (\<forall>k k' x. agree_from s x k k' \<longrightarrow> M k x = M k' x)"

section \<open>Locality\<close>

lemma local_mI: "(\<And>k k' x. agree_from s x k k' \<Longrightarrow> M k x = M k' x) \<Longrightarrow> local_m s M"
  unfolding local_m_def by blast

lemma local_mD: "local_m s M \<Longrightarrow> agree_from s x k k' \<Longrightarrow> M k x = M k' x"
  unfolding local_m_def by blast

lemma agree_from_here: "agree_from s x k k' \<Longrightarrow> k x = k' x"
  unfolding agree_from_def by (metis max.cobounded1 order_refl)

lemma agree_from_later:
  "agree_from s x k k' \<Longrightarrow> fst x \<le> fst y \<Longrightarrow> fst y \<le> max (fst x) (length s) \<Longrightarrow>
   agree_from s y k k'"
  unfolding agree_from_def by auto

lemma agree_fromI:
  "(\<And>y. fst x \<le> fst y \<Longrightarrow> fst y \<le> max (fst x) (length s) \<Longrightarrow> k y = k' y) \<Longrightarrow> agree_from s x k k'"
  unfolding agree_from_def by blast

lemma local_char_matcher: "local_m s (char_matcher s P)"
  by (rule local_mI) (auto simp: char_matcher_def agree_from_def)

lemma local_rep_loop:
  assumes "local_m s mr"
  shows "local_m s (rep_loop f mr gs g mn mx)"
proof (induction f arbitrary: mn mx)
  case 0
  show ?case by (rule local_mI) simp
next
  case (Suc f)
  show ?case
  proof (rule local_mI)
    fix k k' x
    assume ag: "agree_from s x k k'"
    let ?xr = "(fst x, clear_caps gs (snd x))"
    let ?d = "\<lambda>k y. if mn = 0 \<and> fst y = fst x then None
                 else rep_loop f mr gs g (mn - 1) (map_option (\<lambda>j. j - 1) mx) k y"
    have "agree_from s ?xr (?d k) (?d k')"
    proof (rule agree_fromI)
      fix y :: mstate
      assume "fst ?xr \<le> fst y" "fst y \<le> max (fst ?xr) (length s)"
      then have "agree_from s y k k'" using agree_from_later [OF ag] by simp
      then show "?d k y = ?d k' y" using local_mD [OF Suc.IH] by simp
    qed
    then have md: "mr (?d k) ?xr = mr (?d k') ?xr" by (rule local_mD [OF assms])
    have kx: "k x = k' x" by (rule agree_from_here [OF ag])
    show "rep_loop (Suc f) mr gs g mn mx k x = rep_loop (Suc f) mr gs g mn mx k' x"
      by (simp only: rep_loop.simps(2) Let_def md kx)
  qed
qed

lemma local_m: "local_m s (m ic s r)"
proof (induction r)
  case (RSeq r1 r2)
  show ?case
  proof (rule local_mI)
    fix k k' x
    assume ag: "agree_from s x k k'"
    have "agree_from s x (\<lambda>y. m ic s r2 k y) (\<lambda>y. m ic s r2 k' y)"
    proof (rule agree_fromI)
      fix y :: mstate
      assume "fst x \<le> fst y" "fst y \<le> max (fst x) (length s)"
      then have "agree_from s y k k'" by (rule agree_from_later [OF ag])
      then show "m ic s r2 k y = m ic s r2 k' y" by (rule local_mD [OF RSeq.IH(2)])
    qed
    then show "m ic s (RSeq r1 r2) k x = m ic s (RSeq r1 r2) k' x"
      using local_mD [OF RSeq.IH(1)] by simp
  qed
next
  case (RAlt r1 r2)
  show ?case
  proof (rule local_mI)
    fix k k' x
    assume ag: "agree_from s x k k'"
    have "m ic s r1 k x = m ic s r1 k' x" "m ic s r2 k x = m ic s r2 k' x"
      using local_mD [OF RAlt.IH(1) ag] local_mD [OF RAlt.IH(2) ag] .
    then show "m ic s (RAlt r1 r2) k x = m ic s (RAlt r1 r2) k' x" by (simp split: option.split)
  qed
next
  case (RGroup n r)
  show ?case
  proof (rule local_mI)
    fix k k' x
    assume ag: "agree_from s x k k'"
    have "agree_from s x (\<lambda>y. k (fst y, (snd y)(n := Some (fst x, fst y))))
                          (\<lambda>y. k' (fst y, (snd y)(n := Some (fst x, fst y))))"
      using ag unfolding agree_from_def by simp
    then show "m ic s (RGroup n r) k x = m ic s (RGroup n r) k' x"
      using local_mD [OF RGroup.IH] by simp
  qed
next
  case (RRep g mn mx r)
  show ?case
  proof (rule local_mI)
    fix k k' x
    assume ag: "agree_from s x k k'"
    have "rep_loop (rep_fuel s mn x) (m ic s r) (groups r) g mn mx k x =
          rep_loop (rep_fuel s mn x) (m ic s r) (groups r) g mn mx k' x"
      by (rule local_mD [OF local_rep_loop [OF RRep.IH] ag])
    then show "m ic s (RRep g mn mx r) k x = m ic s (RRep g mn mx r) k' x" by simp
  qed
qed (auto intro!: local_mI simp: char_matcher_def agree_from_def)

section \<open>Fuel\<close>

lemma rep_loop_fuel_Suc:
  assumes loc: "local_m s mr"
  shows "Suc (mn + (length s - fst x)) \<le> f \<Longrightarrow>
         rep_loop (Suc f) mr gs g mn mx k x = rep_loop f mr gs g mn mx k x"
proof (induction f arbitrary: mn mx x)
  case 0
  then show ?case by simp
next
  case (Suc f)
  let ?xr = "(fst x, clear_caps gs (snd x))"
  let ?d = "\<lambda>h y. if mn = 0 \<and> fst y = fst x then None
                 else rep_loop h mr gs g (mn - 1) (map_option (\<lambda>j. j - 1) mx) k y"
  have "agree_from s ?xr (?d (Suc f)) (?d f)"
  proof (rule agree_fromI)
    fix y :: mstate
    assume lo: "fst ?xr \<le> fst y" and hi: "fst y \<le> max (fst ?xr) (length s)"
    show "?d (Suc f) y = ?d f y"
    proof (cases "mn = 0 \<and> fst y = fst x")
      case True
      then show ?thesis by simp
    next
      case False
      have "Suc (mn - 1 + (length s - fst y)) \<le> f"
      proof (cases "mn = 0")
        case True
        with False lo have "fst x < fst y" by simp
        with hi have "length s - fst y < length s - fst x" by simp
        with True Suc.prems show ?thesis by simp
      next
        case False
        from lo have "length s - fst y \<le> length s - fst x" by simp
        with False Suc.prems show ?thesis by simp
      qed
      then have eq: "rep_loop (Suc f) mr gs g (mn - 1) (map_option (\<lambda>j. j - 1) mx) k y =
                 rep_loop f mr gs g (mn - 1) (map_option (\<lambda>j. j - 1) mx) k y"
        by (rule Suc.IH)
      show ?thesis by (simp only: if_not_P [OF False] eq)
    qed
  qed
  then have md: "mr (?d (Suc f)) ?xr = mr (?d f) ?xr" by (rule local_mD [OF loc])
  have unf: "\<And>h. rep_loop (Suc h) mr gs g mn mx k x =
      (if mx = Some 0 then k x
       else if mn \<noteq> 0 then mr (?d h) ?xr
       else if \<not> g then (case k x of None \<Rightarrow> mr (?d h) ?xr | Some z \<Rightarrow> Some z)
       else (case mr (?d h) ?xr of None \<Rightarrow> k x | Some z \<Rightarrow> Some z))"
    by (simp only: rep_loop.simps(2) Let_def)
  show ?case by (simp only: unf md)
qed

lemma rep_loop_fuel_mono:
  assumes loc: "local_m s mr" and f: "Suc (mn + (length s - fst x)) \<le> f"
  shows "f \<le> f' \<Longrightarrow> rep_loop f' mr gs g mn mx k x = rep_loop f mr gs g mn mx k x"
proof (induction f' rule: dec_induct)
  case base
  show ?case ..
next
  case (step f')
  then show ?case using rep_loop_fuel_Suc [OF loc, of mn x f' gs g mx k] f by simp
qed

text \<open>The fuel of the repeat loop never decides a match: with any fuel at least
  the bound \<open>rep_fuel\<close> the loop computes what the matcher computes, so the
  bounded loop is the unbounded RepeatMatcher of the specification.\<close>

theorem m_fuel_adequate:
  "rep_fuel s mn x \<le> f \<Longrightarrow>
   rep_loop f (m ic s r) (groups r) g mn mx k x = m ic s (RRep g mn mx r) k x"
  using rep_loop_fuel_mono [OF local_m, of mn s x "rep_fuel s mn x" f]
  by (simp add: rep_fuel_def)

theorem m_fuel_adequate_witness:
  "rep_fuel ''aab'' 0 (0, \<lambda>_. None) \<le> 100 \<and>
   rep_loop 100 (m False ''aab'' (RChar CHR ''a'')) [] True 0 None Some (0, \<lambda>_. None) =
   m False ''aab'' (RRep True 0 None (RChar CHR ''a'')) Some (0, \<lambda>_. None)"
proof -
  have "rep_fuel ''aab'' 0 (0, \<lambda>_. None) \<le> 100" by (simp add: rep_fuel_def)
  from m_fuel_adequate [OF this, of False "RChar CHR ''a''" True None Some] this
  show ?thesis by simp
qed

end
