(* ===== verification/Extract_Ref.thy ===== *)
theory Extract_Ref
  imports Details
begin

text \<open>
  Reference behaviour of the extractors, stated without regular expressions, and the
  proofs that the pattern-based code computes it. Each reference scans the start
  indices in order and takes the first at which a predicate on the text holds,
  which is what \<open>str.match\<close> does with the pattern (\<open>exec_from_find\<close>):
  \<^item> \<open>pin_ref\<close>: the first standalone run of exactly six digits (no word character
    on either side); \<open>extractPin\<close> equals it, so no such run gives null and a
    seven-digit run does not match.
  \<^item> \<open>dob_ref\<close>: the ten characters after the first label \<open>DOB\<close> whose separators
    \<open>[:\s~]*\<close> are followed by a date \<open>DD/MM/YYYY\<close>. The greedy separator run
    never has to give characters back, since a separator is not a digit.
  \<^item> \<open>name_label_ref\<close>: the trimmed run of letters and white space after the first
    label \<open>Name:\<close>, with the optional space given back to the run when no letter
    follows it. This exposes two behaviours the specification does not describe:
    an empty name and a name that runs into the next label.
  \<^item> For the document number, the round trip: a number written as three groups of
    four digits is extracted as its twelve digits.
\<close>

section \<open>The postal code\<close>

text \<open>A standalone six-digit run starting at \<open>j\<close>.\<close>

definition pin_at :: "string \<Rightarrow> nat \<Rightarrow> bool" where
  "pin_at t j \<longleftrightarrow> j + 6 \<le> length t \<and> list_all is_digit (substr t j (j + 6)) \<and>
     \<not> word_before t j \<and> \<not> word_at t (j + 6)"

text \<open>The first such run, scanning the start indices in order.\<close>

definition pin_ref :: "string \<Rightarrow> string option" where
  "pin_ref t = map_option (\<lambda>j. substr t j (j + 6)) (find (pin_at t) [0..<Suc (length t)])"

lemma six_digits_at:
  "6 \<le> run_len is_digit t j \<longleftrightarrow> j + 6 \<le> length t \<and> list_all is_digit (substr t j (j + 6))"
proof -
  have "6 \<le> run_len is_digit t j \<longleftrightarrow> (\<forall>i < 6. j + i < length t \<and> is_digit (t ! (j + i)))"
    by (rule run_len_ge)
  also have "\<dots> \<longleftrightarrow> j + 6 \<le> length t \<and> (\<forall>i < 6. is_digit (t ! (j + i)))"
    by (auto dest: spec [of _ 5])
  also have "\<dots> \<longleftrightarrow> j + 6 \<le> length t \<and> (\<forall>i < 6. is_digit (substr t j (j + 6) ! i))"
    using substr_nth [of j 6 t] by auto
  also have "\<dots> \<longleftrightarrow> j + 6 \<le> length t \<and> list_all is_digit (substr t j (j + 6))"
    by (auto simp: list_all_length length_substr)
  finally show ?thesis .
qed

text \<open>The matcher of \<open>/\b\d{6}\b/\<close> succeeds at \<open>j\<close> exactly at a standalone run.\<close>

lemma m_pin_regex:
  "m False t pin_regex Some (j, c) = (if pin_at t j then Some (j + 6, c) else None)"
proof -
  have "6 \<le> run_len is_digit t j \<Longrightarrow> word_at t j \<and> word_before t (j + 6)"
    using run_len_nth [of 0 is_digit t j] run_len_nth [of 5 is_digit t j]
    by (auto simp: word_at_def word_before_def digit_word add.commute)
  then show ?thesis
    by (auto simp: pin_regex_def m_count_char [OF char_test_digit_cs] six_digits_at pin_at_def
        simp del: m.simps(8))
qed

lemma find_None_upt: "find P [0..<Suc n] = None \<longleftrightarrow> (\<forall>j \<le> n. \<not> P j)"
  by (auto simp: find_None_iff less_Suc_eq_le simp del: upt_Suc)

lemma all_le_list_all: "(\<forall>j \<le> n. P j) \<longleftrightarrow> list_all P [0..<Suc n]"
  by (auto simp: list_all_iff less_Suc_eq_le simp del: upt_Suc)

lemma extractPin_ref_eq: "extractPin t = pin_ref t"
proof -
  have "exec_from False t pin_regex 0 =
          map_option (\<lambda>j. (j, (j + 6, no_caps))) (find (pin_at t) [0..<Suc (length t)])"
    by (rule exec_from_find) (rule m_pin_regex)
  then show ?thesis
    by (simp add: extractPin_def js_match_def pin_ref_def match_text_def option.map_comp o_def)
qed

text \<open>C21: the postal-code extractor computes its reference: the first standalone
  six-digit run of the text, or null.\<close>

theorem extractPin_ref: "extractPin t = pin_ref t"
  by (rule extractPin_ref_eq)

text \<open>C25: the postal code is null exactly when no index starts a standalone
  six-digit run; in particular a seven-digit run gives null.\<close>

theorem extractPin_None_iff: "extractPin t = None \<longleftrightarrow> (\<forall>j \<le> length t. \<not> pin_at t j)"
  by (simp add: extractPin_ref_eq pin_ref_def find_None_upt del: upt_Suc)

theorem extractPin_None_iff_witness: "extractPin ''1234567'' = None"
proof -
  have "list_all (\<lambda>j. \<not> pin_at ''1234567'' j) [0..<8]"
    by code_simp
  moreover have "Suc (length ''1234567'') = 8" by simp
  ultimately have "list_all (\<lambda>j. \<not> pin_at ''1234567'' j) [0..<Suc (length ''1234567'')]"
    by (simp only:)
  then have "\<forall>j \<le> length ''1234567''. \<not> pin_at ''1234567'' j"
    by (simp only: all_le_list_all)
  then show ?thesis by (rule extractPin_None_iff [THEN iffD2])
qed

section \<open>The document number\<close>

lemma digits_run:
  assumes "length d = n" "list_all is_digit d"
  shows "n \<le> run_len is_digit (u @ d @ w) (length u)"
  using assms by (auto simp: run_len_ge nth_append list_all_length)

text \<open>C24: round trip: a document number written as three groups of four digits
  separated by single spaces is extracted as its twelve digits.\<close>

theorem extractAadharNumber_roundtrip:
  assumes len: "length a = 4" "length b = 4" "length c = 4"
    and dig: "list_all is_digit (a @ b @ c)"
  shows "extractAadharNumber (a @ CHR '' '' # b @ CHR '' '' # c) = Some (a @ b @ c)"
proof -
  let ?t = "a @ CHR '' '' # b @ CHR '' '' # c"
  have r0: "4 \<le> run_len is_digit ?t 0"
    using digits_run [of a 4 "[]"] len dig by simp
  have r5: "4 \<le> run_len is_digit ?t 5"
    using digits_run [of b 4 "a @ [CHR '' '']" "CHR '' '' # c"] len dig by simp
  have r10: "4 \<le> run_len is_digit ?t 10"
    using digits_run [of c 4 "a @ CHR '' '' # b @ [CHR '' '']" "[]"] len dig by simp
  have dg: "is_digit (a ! 0)" "is_digit (c ! 3)"
    using dig len by (auto simp: list_all_iff)
  have w: "\<not> word_before ?t 0" "word_at ?t 0" "word_before ?t 14" "\<not> word_at ?t 14"
    using len dg by (auto simp: word_before_def word_at_def nth_append digit_word)
  have sp: "?t ! 4 = CHR '' ''" "?t ! 9 = CHR '' ''" "is_js_space CHR '' ''"
    using len by (auto simp: nth_append is_js_space_def)
  have lt: "length ?t = 14" using len by simp
  have m0: "m False ?t aadhar_regex Some (0, no_caps) = Some (14, no_caps)"
    unfolding aadhar_regex_def
    using r0 r5 r10 w sp lt
    by (simp add: m_count_char [OF char_test_digit_cs] m_opt_char [OF char_test_space_cs, unfolded One_nat_def]
        del: m.simps(8))
  then have "exec_from False ?t aadhar_regex 0 = Some (0, (14, no_caps))"
    by (simp add: exec_from.simps [of False ?t aadhar_regex 0])
  moreover have "substr ?t 0 14 = ?t" using lt by (simp add: substr_def)
  moreover have "filter (\<lambda>x. \<not> is_js_space x) ?t = a @ b @ c"
    using dig sp(3) by (auto simp: list_all_iff filter_id_conv digit_not_space)
  ultimately show ?thesis
    by (simp add: extractAadharNumber_def js_match_def match_text_def replace_space_filter)
qed

theorem extractAadharNumber_roundtrip_witness:
  "extractAadharNumber ''9999 8888 7777'' = Some ''999988887777''"
  using extractAadharNumber_roundtrip [of "''9999''" "''8888''" "''7777''"]
  by (simp add: is_digit_def)

section \<open>The date of birth\<close>

text \<open>The separator class \<open>[:\s~]\<close> of the date pattern.\<close>

definition is_dob_sep :: "char \<Rightarrow> bool" where
  "is_dob_sep c \<longleftrightarrow> class_mem [CChar CHR '':'', CSpace, CChar CHR ''~''] c"

text \<open>Where the date starts after the label \<open>DOB\<close> at \<open>j\<close>: past the whole run of
  separators, since a separator is never a digit.\<close>

definition dob_start :: "string \<Rightarrow> nat \<Rightarrow> nat" where
  "dob_start t j = j + 3 + run_len is_dob_sep t (j + 3)"

text \<open>The label at \<open>j\<close> followed, after its separators, by a date.\<close>

definition dob_at :: "string \<Rightarrow> nat \<Rightarrow> bool" where
  "dob_at t j \<longleftrightarrow> lit_at False t j ''DOB'' \<and> dob_start t j + 10 \<le> length t \<and>
     date_shape (substr t (dob_start t j) (dob_start t j + 10))"

text \<open>The date of the first such label.\<close>

definition dob_ref :: "string \<Rightarrow> string option" where
  "dob_ref t = map_option (\<lambda>j. substr t (dob_start t j) (dob_start t j + 10))
     (find (dob_at t) [0..<Suc (length t)])"

lemma digit_not_dob_sep: "is_digit c \<Longrightarrow> \<not> is_dob_sep c"
  by (auto simp: is_dob_sep_def class_mem_def is_digit_def is_js_space_def)

lemma date_at_iff:
  "(2 \<le> run_len is_digit t a \<and> a + 2 < length t \<and> t ! (a + 2) = CHR ''/'' \<and>
    2 \<le> run_len is_digit t (a + 3) \<and> a + 5 < length t \<and> t ! (a + 5) = CHR ''/'' \<and>
    4 \<le> run_len is_digit t (a + 6)) \<longleftrightarrow>
   a + 10 \<le> length t \<and> date_shape (substr t a (a + 10))"
proof
  assume h: "2 \<le> run_len is_digit t a \<and> a + 2 < length t \<and> t ! (a + 2) = CHR ''/'' \<and>
    2 \<le> run_len is_digit t (a + 3) \<and> a + 5 < length t \<and> t ! (a + 5) = CHR ''/'' \<and>
    4 \<le> run_len is_digit t (a + 6)"
  then have D: "\<forall>j<2. a + j < length t \<and> is_digit (t ! (a + j))"
    "\<forall>j<2. a + 3 + j < length t \<and> is_digit (t ! (a + 3 + j))"
    "\<forall>j<4. a + 6 + j < length t \<and> is_digit (t ! (a + 6 + j))"
    by (simp_all add: run_len_ge)
  have len: "a + 10 \<le> length t" using D(3) by (auto dest: spec [of _ 3])
  have "is_digit (substr t a (a + 10) ! i)" if "i \<in> {0, 1, 3, 4, 6, 7, 8, 9}" for i
  proof -
    have "i < 10" using that by auto
    then have "substr t a (a + 10) ! i = t ! (a + i)" using len by (simp add: substr_nth)
    moreover have "is_digit (t ! (a + i))"
      using that D by (auto dest: spec [of _ 0] spec [of _ 1] spec [of _ 2] spec [of _ 3]
        simp: add.assoc)
    ultimately show ?thesis by simp
  qed
  moreover have "substr t a (a + 10) ! 2 = CHR ''/''" "substr t a (a + 10) ! 5 = CHR ''/''"
    using len h by (simp_all add: substr_nth)
  ultimately show "a + 10 \<le> length t \<and> date_shape (substr t a (a + 10))"
    using len by (simp add: date_shape_def length_substr)
next
  assume h: "a + 10 \<le> length t \<and> date_shape (substr t a (a + 10))"
  then have len: "a + 10 \<le> length t" and ds: "date_shape (substr t a (a + 10))" by auto
  have dig: "is_digit (t ! (a + i))" if "i \<in> {0, 1, 3, 4, 6, 7, 8, 9}" for i
  proof -
    have "i < 10" using that by auto
    then have "substr t a (a + 10) ! i = t ! (a + i)" using len by (simp add: substr_nth)
    then show ?thesis using ds that unfolding date_shape_def by metis
  qed
  have sl: "t ! (a + 2) = CHR ''/''" "t ! (a + 5) = CHR ''/''"
    using ds len by (simp_all add: date_shape_def substr_nth)
  have "2 \<le> run_len is_digit t a" using dig [of 0] dig [of 1] len
    by (auto simp: run_len_ge less_2_cases_iff)
  moreover have "2 \<le> run_len is_digit t (a + 3)" using dig [of 3] dig [of 4] len
    by (auto simp: run_len_ge less_2_cases_iff add.assoc)
  moreover have "4 \<le> run_len is_digit t (a + 6)" using dig [of 6] dig [of 7] dig [of 8] dig [of 9] len
    by (auto simp: run_len_ge less_Suc_eq numeral_eq_Suc add.assoc)
  ultimately show "2 \<le> run_len is_digit t a \<and> a + 2 < length t \<and> t ! (a + 2) = CHR ''/'' \<and>
    2 \<le> run_len is_digit t (a + 3) \<and> a + 5 < length t \<and> t ! (a + 5) = CHR ''/'' \<and>
    4 \<le> run_len is_digit t (a + 6)" using sl len by simp
qed

lemma m_date:
  "m False t (seqs [count 2 (cls [CDigit]), RChar CHR ''/'', count 2 (cls [CDigit]),
                    RChar CHR ''/'', count 4 (cls [CDigit])]) k (a, c) =
   (if a + 10 \<le> length t \<and> date_shape (substr t a (a + 10)) then k (a + 10, c) else None)"
  unfolding date_at_iff [symmetric]
  by (simp add: m_count_char [OF char_test_digit_cs] char_matcher_def numeral_eq_Suc
      del: m.simps(8))

lemma m_dob_regex:
  "m False t dob_regex Some (j, c) =
   (if dob_at t j then Some (dob_start t j + 10, c(1 := Some (dob_start t j, dob_start t j + 10)))
    else None)"
proof -
  let ?date = "seqs [count 2 (cls [CDigit]), RChar CHR ''/'', count 2 (cls [CDigit]),
                    RChar CHR ''/'', count 4 (cls [CDigit])]"
  let ?K = "\<lambda>y. m False t (RGroup 1 ?date) Some y"
  let ?R = "run_len is_dob_sep t (j + 3)"
  have K: "?K (a, c') = (if a + 10 \<le> length t \<and> date_shape (substr t a (a + 10))
                        then Some (a + 10, c'(1 := Some (a, a + 10))) else None)" for a c'
    by (simp only: m.simps(7) m_date) simp
  have star: "m False t (star (cls [CChar CHR '':'', CSpace, CChar CHR ''~''])) ?K (j + 3, c) =
      first_some (map (\<lambda>i. ?K (j + 3 + i, c)) (rev [0..<Suc ?R]))"
  proof -
    have "char_test False (cls [CChar CHR '':'', CSpace, CChar CHR ''~'']) = Some is_dob_sep"
      by (simp add: class_found_def is_dob_sep_def fun_eq_iff)
    from m_rep_char [OF this, of 0 None t True ?K "j + 3" c]
    show ?thesis by (simp add: mn_le_mx_def rep_hi_def rep_order_def del: m.simps(7))
  qed
  have none: "?K (j + 3 + i, c) = None" if "i < ?R" for i
  proof -
    from run_len_nth [OF that] have "is_dob_sep (t ! (j + 3 + i))" by simp
    then have "\<not> 2 \<le> run_len is_digit t (j + 3 + i)"
      using run_len_nth [of 0 is_digit t "j + 3 + i"] digit_not_dob_sep by auto
    then have "\<not> (j + 3 + i + 10 \<le> length t \<and> date_shape (substr t (j + 3 + i) (j + 3 + i + 10)))"
      using date_at_iff [of t "j + 3 + i"] by blast
    then show ?thesis by (simp only: K if_False)
  qed
  have "m False t dob_regex Some (j, c) =
      (if lit_at False t j ''DOB'' then m False t (star (cls [CChar CHR '':'', CSpace, CChar CHR ''~''])) ?K (j + 3, c)
       else None)"
  proof -
    have e: "m False t REmpty Some = Some" by (rule ext) simp
    show ?thesis
      by (simp only: dob_regex_def m_seqs_Cons m_lit) (simp add: e numeral_3_eq_3 del: m.simps(7) m.simps(8))
  qed
  also have "\<dots> = (if lit_at False t j ''DOB'' then ?K (j + 3 + ?R, c) else None)"
    using star first_some_greedy [of ?R "\<lambda>i. ?K (j + 3 + i, c)", OF none] by (simp only:)
  finally show ?thesis by (simp only: K) (auto simp: dob_at_def dob_start_def)
qed

lemma extractDOB_ref_eq: "extractDOB t = dob_ref t"
proof -
  have "exec_from False t dob_regex 0 =
          map_option (\<lambda>j. (j, (dob_start t j + 10, no_caps(1 := Some (dob_start t j, dob_start t j + 10)))))
            (find (dob_at t) [0..<Suc (length t)])"
    by (rule exec_from_find) (rule m_dob_regex)
  then show ?thesis
    by (simp add: extractDOB_def js_match_def dob_ref_def group_text_def split: option.split)
qed

text \<open>C22: the date-of-birth extractor computes its reference: the date after the first
  \<open>DOB\<close> label whose separators are followed by a date, or null.\<close>

theorem extractDOB_ref: "extractDOB t = dob_ref t"
  by (rule extractDOB_ref_eq)

text \<open>C26: the date of birth is null exactly when no \<open>DOB\<close> label is followed, after
  its separators, by a date; a label with no date gives null.\<close>

theorem extractDOB_None_iff: "extractDOB t = None \<longleftrightarrow> (\<forall>j \<le> length t. \<not> dob_at t j)"
  by (simp add: extractDOB_ref_eq dob_ref_def find_None_upt del: upt_Suc)

theorem extractDOB_None_iff_witness: "extractDOB ''DOB: 1990'' = None"
proof -
  have "list_all (\<lambda>j. \<not> dob_at ''DOB: 1990'' j) [0..<10]"
    by code_simp
  moreover have "Suc (length ''DOB: 1990'') = 10" by simp
  ultimately have "list_all (\<lambda>j. \<not> dob_at ''DOB: 1990'' j) [0..<Suc (length ''DOB: 1990'')]"
    by (simp only:)
  then have "\<forall>j \<le> length ''DOB: 1990''. \<not> dob_at ''DOB: 1990'' j"
    by (simp only: all_le_list_all)
  then show ?thesis by (rule extractDOB_None_iff [THEN iffD2])
qed

section \<open>The name label\<close>

text \<open>The class \<open>[A-Za-z\s]\<close> of the label pattern.\<close>

definition is_name_char :: "char \<Rightarrow> bool" where
  "is_name_char c \<longleftrightarrow> class_mem [CRange CHR ''A'' CHR ''Z'', CRange CHR ''a'' CHR ''z'', CSpace] c"

text \<open>Where the group starts after the label \<open>Name:\<close> at \<open>j\<close>: after the optional
  space when the class can still match there, at the space otherwise.\<close>

definition name_start :: "string \<Rightarrow> nat \<Rightarrow> nat" where
  "name_start t j =
     (if j + 5 < length t \<and> is_js_space (t ! (j + 5)) \<and> 0 < run_len is_name_char t (j + 6)
      then j + 6 else j + 5)"

definition name_label_at :: "string \<Rightarrow> nat \<Rightarrow> bool" where
  "name_label_at t j \<longleftrightarrow> lit_at False t j ''Name:'' \<and> 0 < run_len is_name_char t (name_start t j)"

text \<open>The trimmed run of name characters after the first label.\<close>

definition name_label_ref :: "string \<Rightarrow> string option" where
  "name_label_ref t = map_option
     (\<lambda>j. js_trim (substr t (name_start t j) (name_start t j + run_len is_name_char t (name_start t j))))
     (find (name_label_at t) [0..<Suc (length t)])"

lemma char_test_name: "char_test False (cls [CRange CHR ''A'' CHR ''Z'', CRange CHR ''a'' CHR ''z'', CSpace]) = Some is_name_char"
  by (simp add: class_found_def is_name_char_def fun_eq_iff)

lemma m_name_group:
  "m False t (RGroup 1 (plus (cls [CRange CHR ''A'' CHR ''Z'', CRange CHR ''a'' CHR ''z'', CSpace]))) Some (a, c) =
   (if 0 < run_len is_name_char t a
    then Some (a + run_len is_name_char t a, c(1 := Some (a, a + run_len is_name_char t a))) else None)"
  using m_rep_char [OF char_test_name, of 1 None t True "\<lambda>y. Some (fst y, (snd y)(1 := Some (a, fst y)))" a c]
  by (simp add: mn_le_mx_def rep_hi_def rep_order_def first_some_all_Some del: m.simps(8))

lemma m_name_label_regex:
  "m False t name_label_regex Some (j, c) =
   (if name_label_at t j
    then Some (name_start t j + run_len is_name_char t (name_start t j),
               c(1 := Some (name_start t j, name_start t j + run_len is_name_char t (name_start t j))))
    else None)"
proof -
  let ?G = "RGroup 1 (plus (cls [CRange CHR ''A'' CHR ''Z'', CRange CHR ''a'' CHR ''z'', CSpace]))"
  have e: "m False t REmpty Some = Some" by (rule ext) simp
  have "m False t name_label_regex Some (j, c) =
      (if lit_at False t j ''Name:''
       then m False t (opt (cls [CSpace])) (\<lambda>y. m False t ?G Some y) (j + 5, c) else None)"
    by (simp only: name_label_regex_def m_seqs_Cons m_lit)
      (simp add: e eval_nat_numeral del: m.simps(7) m.simps(8))
  also have "\<dots> = (if lit_at False t j ''Name:''
       then (if j + 5 < length t \<and> is_js_space (t ! (j + 5))
             then (case m False t ?G Some (Suc (j + 5), c) of
                     None \<Rightarrow> m False t ?G Some (j + 5, c) | Some z \<Rightarrow> Some z)
             else m False t ?G Some (j + 5, c))
       else None)"
    by (simp only: m_opt_char [OF char_test_space_cs])
  moreover have "0 < run_len is_name_char t (j + 5)" if "j + 5 < length t" "is_js_space (t ! (j + 5))"
    using that by (simp add: run_len_pos is_name_char_def class_mem_def)
  ultimately show ?thesis
    by (simp only: m_name_group) (auto simp: name_label_at_def name_start_def add.commute)
qed

lemma extractName_details_ref_eq:
  "extractName_details raw nm = (if js_truthy nm then nm else name_label_ref raw)"
proof -
  have "exec_from False raw name_label_regex 0 =
          map_option (\<lambda>j. (j, (name_start raw j + run_len is_name_char raw (name_start raw j),
             no_caps(1 := Some (name_start raw j, name_start raw j + run_len is_name_char raw (name_start raw j))))))
            (find (name_label_at raw) [0..<Suc (length raw)])"
    by (rule exec_from_find) (rule m_name_label_regex)
  then show ?thesis
    by (simp add: extractName_details_def js_match_def name_label_ref_def group_text_def
        split: option.split)
qed

text \<open>C23: the name extractor of DetailsExtraction.js returns a truthy inline name
  unchanged and otherwise computes its reference: the trimmed run of letters and
  white space after the first \<open>Name:\<close> label.\<close>

theorem extractName_details_ref:
  "extractName_details raw nm = (if js_truthy nm then nm else name_label_ref raw)"
  by (rule extractName_details_ref_eq)

text \<open>A label followed by a space and no letter gives the empty string, not
  null: the optional space is given back to the group, which then trims to nothing.\<close>

theorem extractName_label_empty: "extractName_details ''Name: 1'' None = Some ''''"
  by code_simp

text \<open>The label pattern runs on over the next label's word: the name read from
  \<open>Name: RAVI KUMAR DOB: ...\<close> is \<open>RAVI KUMAR DOB\<close>.\<close>

theorem extractName_label_greedy:
  "extractName_details ''Name: RAVI KUMAR DOB: 01/01/1985'' None = Some ''RAVI KUMAR DOB''"
  by code_simp

section \<open>The assembled record\<close>

text \<open>The shape each present field of the assembled record has: the document number
  twelve digits, the date \<open>DD/MM/YYYY\<close>, the gender one of the three words up to
  case, the postal code six digits. A null field is always well formed.\<close>

definition opt_ok :: "(string \<Rightarrow> bool) \<Rightarrow> string option \<Rightarrow> bool" where
  "opt_ok P v = (case v of None \<Rightarrow> True | Some x \<Rightarrow> P x)"

definition wf_details :: "aadhar_details \<Rightarrow> bool" where
  "wf_details d \<longleftrightarrow>
     opt_ok (\<lambda>n. length n = 12 \<and> list_all is_digit n) (det_aadharNumber d) \<and>
     opt_ok date_shape (dob d) \<and>
     opt_ok (\<lambda>g. \<exists>w \<in> {''Male'', ''Female'', ''Other''}. ci_eq g w) (gender d) \<and>
     opt_ok (\<lambda>p. length p = 6 \<and> list_all is_digit p) (pin d)"

lemma extractPin_Some_digits: "extractPin t = Some p \<Longrightarrow> length p = 6 \<and> list_all is_digit p"
  by (auto simp: extractPin_ref_eq pin_ref_def pin_at_def find_Some_iff length_substr)

lemma extractDOB_Some_shape: "extractDOB t = Some d \<Longrightarrow> date_shape d"
  by (auto simp: extractDOB_ref_eq dob_ref_def dob_at_def find_Some_iff)

end
