(* ===== verification/Spec2Isabelle.thy ===== *)
theory Spec2Isabelle
  imports Route_Async Logging RegExp_Fuel Extract_Ref
begin

text \<open>
  \<^bold>\<open>A verification development of the OCR back end.\<close>
  The program (src/src/server.js and src/src/utils/DetailsExtraction.js) takes two
  uploaded images of an identity card. For each side it runs the OCR engine, cleans
  the text and tries two side-local extractions. It then merges the two sides into
  one record of six optional fields. The development models every function of the
  two files as a HOL function over an explicit model of the JavaScript regular
  expressions and string built-ins they call, and proves what each part promises.

  \<^bold>\<open>Theories and what they model.\<close>
  \<^item> \<^theory_text>\<open>Prelude\<close>: JavaScript strings as \<^typ>\<open>string\<close>, the character
    classes \<open>\s\<close>, \<open>\d\<close>, \<open>\w\<close>, case folding, \<open>trim\<close> (\<open>js_trim\<close>),
    \<open>substring\<close> (\<open>substr\<close>), and the truthiness of an optional string, which is
    how \<open>||\<close> and \<open>if (name)\<close> read (\<open>js_truthy\<close>, \<open>js_or\<close>).
  \<^item> \<^theory_text>\<open>RegExp\<close>: the ECMAScript pattern semantics the code relies on. A
    pattern literal of the source is a \<open>regex\<close> value. \<open>m\<close> is the
    specification's continuation-passing matcher. \<open>rep_loop\<close> is RepeatMatcher.
    \<open>exec_from\<close> is RegExpBuiltinExec's scan over start indices. \<open>js_match\<close> is
    \<open>str.match(re)\<close>, and \<open>js_replace_all\<close> is \<open>str.replace(re_g, rep)\<close>.
    The theory also proves that matchers only move forward, and that the scan
    finds the leftmost match (\<open>exec_from_Some_iff\<close>).
  \<^item> \<^theory_text>\<open>RegExp_Fuel\<close>: \<open>rep_loop\<close> carries fuel
    \<open>rep_fuel = 1 + min + (characters left)\<close>. Every iteration past the minimum
    must consume a character, because the specification fails an empty
    iteration. So this fuel is never what stops a loop: any larger fuel gives the
    same result (\<open>m_fuel_adequate\<close>), and the bounded loop is the unbounded one.
  \<^item> \<^theory_text>\<open>RegExp_Sem\<close>: a relational semantics \<open>rmatch\<close> of patterns.
    The matcher is sound for it (\<open>m_sound\<close>, \<open>js_match_sound\<close>). Inversion rules
    turn a reported match into the shape of the matched text. Computation rules
    evaluate the matcher on character runs and literals, and compute a global
    replace with a one-character pattern.
  \<^item> \<^theory_text>\<open>Normalize\<close>: the Text Normalizer, line 70 of \<open>cleanOCRText\<close>
    (\<open>normalize_text\<close>). It is proved equal to trimming a direct
    run-collapsing function (\<open>collapse_ws\<close>). Its contract is proved: normal
    form, idempotence, fixed points, and no non-space character lost.
  \<^item> \<^theory_text>\<open>OCRSide\<close>: \<open>cleanOCRText\<close>, \<open>extractAadharNumber\<close> and the inline
    \<open>extractName\<close> of server.js (lines 69--91), with the record
    \<open>recognized_side\<close>.
  \<^item> \<^theory_text>\<open>Details\<close>: DetailsExtraction.js. It holds the record
    \<open>aadhar_details\<close>, the five extractors (\<open>extractName_details\<close>,
    \<open>extractDOB\<close>, \<open>extractGender\<close>, \<open>extractAddress\<close>, \<open>extractPin\<close>) and the
    assembler \<open>extractAadharDetails\<close>. It proves the shape of each field the
    extractors return.
  \<^item> \<^theory_text>\<open>Server\<close>: the HTTP boundary of server.js.
    \<^item> The upload middleware: \<open>fileFilter\<close>, the size limit and the declared
      fields, applied by \<open>multer_parts\<close>.
    \<^item> \<open>performOCR\<close>, the route \<open>upload_aadhar\<close> and the error middleware.
    \<^item> \<open>post_upload_aadhar\<close>, the whole request.

    Tesseract is an arbitrary function \<open>ocr_engine\<close> from an image buffer to a text
    or an error. Each call is recorded in a trace of \<open>ocr_event\<close>s, so that the
    order of the awaited calls is part of the result. Exceptions are values of
    \<open>js_error\<close>, and responses are a status code and a JSON body.
    The route is proved to refine the specification's orchestrator contract
    \<open>extractDocument\<close>, read back from the response by \<open>response_result\<close>.
  \<^item> \<^theory_text>\<open>Extract_Ref\<close>: reference definitions of the postal code, the date
    of birth and the name label, stated without patterns as the first index at
    which a predicate on the text holds. \<open>extractPin\<close>, \<open>extractDOB\<close> and
    \<open>extractName_details\<close> are proved equal to them; the specification's tests on
    absent fields follow. It also proves the document number's round trip.
  \<^item> \<^theory_text>\<open>Route_Async\<close>: the route as it runs on the event loop.
    \<open>hstate\<close> names the points where a request's handling is suspended (body not
    yet parsed, handler invoked, front image being recognised, back image being
    recognised, response sent); \<open>hstep\<close> is one resumption, with the engine events
    it causes. The \<open>server\<close> record holds the handlers of the accepted requests,
    the requests still to come and a log of all engine events tagged with their
    request; \<open>server_step\<close> is the event loop, which may accept the next request
    or resume any handler, in any order. One handler run alone (\<open>hrun\<close>) is
    \<open>post_upload_aadhar\<close>. An invariant over all reachable states shows that
    interleaving is invisible to each request. A rank (four resumptions per
    handler, five per request not yet accepted) shows that every run is finite,
    at most five steps per request, and the progress lemma that a state that
    cannot step has answered every request; together they give liveness.
    \<open>server_run\<close> follows an explicit schedule and builds the witnesses.
  \<^item> \<^theory_text>\<open>App\<close>: the Express application, lines 7--10, 29, 93 and 101--104.
    \<open>app_handle\<close> is the middleware stack: \<open>cors()\<close> (a preflight is answered
    204 at once, every other response gets \<open>Access-Control-Allow-Origin: *\<close>),
    \<open>express.json()\<close> (a parse error goes to the error middleware, skipping the
    route), the route (a \<open>POST\<close> whose path matches \<open>/upload-aadhar\<close>
    case-insensitively with an optional trailing slash) and the final 404.
    A request's JSON body is represented by the outcome of parsing it.
    \<open>listen_port\<close> is \<open>process.env.PORT || 8080\<close> handed to \<open>app.listen\<close>;
    a decimal numeral from 1 to 65535 gives its port (round trip through
    \<open>decimal\<close>), 0 a port the system chooses, a value of 65536 or more Node's
    bad-port error.
  \<^item> \<^theory_text>\<open>Logging\<close>: every \<open>console.log\<close> and \<open>console.error\<close> call of
    the two files. Each function that writes (\<open>extractAddress\<close>,
    \<open>extractAadharDetails\<close>, \<open>performOCR\<close> with Tesseract's \<open>logger\<close>, the route,
    the error middleware, the \<open>app.listen\<close> callback) is modelled again as a
    writer: its value paired with the lines it writes (\<open>log_line\<close>, the values
    passed to \<open>console\<close>), callers appending their callees' lines in call order.
    Erasing the output gives back the plain functions (\<open>logging_transparent\<close>);
    the theory also proves what a successful request and an engine fault write.
  \<^item> This theory: the properties that span the components, the precedence of
    the two sides for the document number and the name. It also keeps, as lemmas,
    the shape of every field of an assembled record (\<open>wf_details\<close>), the
    adequacy of the normaliser's loop fuel, and the specification's full scenario
    evaluated in the kernel by \<open>code_simp\<close>, which records the first findings
    below.

  \<^bold>\<open>Not modelled.\<close>
  \<^item> The \<open>require\<close> lines and \<open>module.exports\<close>: no behaviour. The headers
    the framework sets beyond \<open>X-Powered-By\<close> and those of \<open>cors()\<close>, JSON
    parsing itself (only its outcome), and a \<open>PORT\<close> that is not a decimal
    numeral (Node converts it with \<open>Number()\<close> or takes it as a pipe path).
  \<^item> How Node formats the values passed to \<open>console\<close> (\<open>util.inspect\<close>), and the
    content of Tesseract's progress messages, which are taken as given.
  \<^item> Tesseract's recognition and its options (language, whitelist, preprocess).
  \<^item> The parts of ECMAScript patterns the code does not use: lookaround,
    backreferences and Unicode mode.

  Characters are the 256 of \<^typ>\<open>char\<close>. That covers every literal of the source
  and the engine's A--Z, 0--9 output, but not code units above 255.

  \<^bold>\<open>What the modelling showed.\<close>
  \<^item> On the specification's scenario the document number is 198512345678. The
    pattern \<open>\b\d{4}\s?\d{4}\s?\d{4}\b\<close> first groups the birth year with the
    next eight digits.
  \<^item> On the same scenario the name is absent, and the address runs on to the
    postal code.
  \<^item> The route recognises the two sides one after the other, not concurrently.
    When the front side fails, the back side is never recognised.
  \<^item> The label pattern \<open>Name:\s?([A-Za-z\s]+)\<close> runs on into the next label
    (\<open>RAVI KUMAR DOB\<close>), and gives the empty string, not null, for a label
    followed by a space and no letter.
  \<^item> The error middleware answers 500 whatever the error: a malformed JSON body
    on any path, even one no route serves, and multer's rejections of a file are
    reported as server errors.
  \<^item> A successful request writes its whole record (identity number, name, date of
    birth, address) and both recognised sides to standard output, and
    \<open>extractAddress\<close> writes the back side's raw text, where the specification
    allows only an injected observability hook. An engine fault is written to
    standard error twice, by \<open>performOCR\<close> and by the route.
\<close>

section \<open>Properties spanning the components\<close>

text \<open>C2: the document number comes from the front side's text when the front
  contains one and from the back side's text otherwise; it is never taken from the
  back when the front has one.\<close>

theorem aadhar_number_precedence:
  "det_aadharNumber (extractAadharDetails (cleanOCRText front) (cleanOCRText back)) =
     (case extractAadharNumber (normalize_text front) of
        Some n \<Rightarrow> Some n
      | None \<Rightarrow> extractAadharNumber (normalize_text back))"
  by (auto simp: extractAadharDetails_def js_or_def js_truthy_def
      dest: extractAadharNumber_nonempty split: option.splits)

text \<open>C12: the name is the front side's inline two-word match when there is one;
  only when there is none is the \<open>Name:\<close> label of the front text consulted.\<close>

theorem name_precedence:
  "det_name (extractAadharDetails (cleanOCRText front) back) =
     (case extractName (normalize_text front) of
        Some n \<Rightarrow> Some n
      | None \<Rightarrow> extractName_details (normalize_text front) None)"
  by (auto simp: extractAadharDetails_def extractName_details_def js_truthy_def
      dest: extractName_nonempty split: option.splits)

text \<open>Every record the pipeline assembles from two OCR texts is well formed:
  each field that is present has the shape its extractor promises.\<close>

theorem details_wf: "wf_details (extractAadharDetails (cleanOCRText front) (cleanOCRText back))"
proof -
  have n: "opt_ok (\<lambda>n. length n = 12 \<and> list_all is_digit n) (extractAadharNumber t)" for t
    using aadhar_number_digits [of t] by (auto simp: opt_ok_def list_all_iff split: option.split)
  have "opt_ok (\<lambda>n. length n = 12 \<and> list_all is_digit n)
          (js_or (js_or (extractAadharNumber (normalize_text front)) (extractAadharNumber (normalize_text back))) None)"
    using n [of "normalize_text front"] n [of "normalize_text back"]
    by (auto simp: opt_ok_def js_or_def js_truthy_def split: option.splits)
  moreover have "opt_ok date_shape (extractDOB t)" for t
    using extractDOB_Some_shape [of t] by (auto simp: opt_ok_def split: option.split)
  moreover have "opt_ok (\<lambda>g. \<exists>w \<in> {''Male'', ''Female'', ''Other''}. ci_eq g w) (extractGender t)" for t
    using gender_word [of t] by (auto simp: opt_ok_def split: option.split)
  moreover have "opt_ok (\<lambda>p. length p = 6 \<and> list_all is_digit p) (extractPin t)" for t
    using extractPin_Some_digits [of t] by (auto simp: opt_ok_def split: option.split)
  ultimately show ?thesis by (simp add: wf_details_def extractAadharDetails_def)
qed

text \<open>The normaliser's \<open>\s+\<close> loop is never cut short by its fuel: with any
  fuel from \<open>rep_fuel\<close> up, the bounded repeat loop computes what the matcher of
  \<open>ws_regex\<close> computes, so the model's loop is the unbounded RepeatMatcher.\<close>

theorem normalize_fuel_adequate:
  "rep_fuel s 1 x \<le> f \<Longrightarrow>
   rep_loop f (m False s (cls [CSpace])) [] True 1 None k x = m False s ws_regex k x"
  using m_fuel_adequate [of s 1 x f False "cls [CSpace]" True None k]
  by (simp add: ws_regex_def)

theorem normalize_fuel_adequate_witness:
  "rep_fuel ''a  b'' 1 (1, \<lambda>_. None) \<le> 10 \<and>
   rep_loop 10 (m False ''a  b'' (cls [CSpace])) [] True 1 None Some (1, \<lambda>_. None) =
   m False ''a  b'' ws_regex Some (1, \<lambda>_. None)"
proof -
  have "rep_fuel ''a  b'' 1 (1, \<lambda>_. None) \<le> 10" by (simp add: rep_fuel_def)
  from normalize_fuel_adequate [OF this, of Some] this show ?thesis by simp
qed

text \<open>The full scenario of the specification, run through the code: the front
  and back texts are cleaned, then assembled. The document number is the first
  twelve-digit group the pattern finds, which starts at the year of birth; the
  name is absent, since neither the inline pattern (which needs lower-case
  letters) nor the case-sensitive \<open>Name:\<close> label occurs; the address runs on
  to the postal code.\<close>

theorem full_scenario:
  "extractAadharDetails (cleanOCRText ''NAME: ARUN KUMAR DOB:01/01/1985 1234 5678 9012 Male'')
     (cleanOCRText ''Addresss/ 12 Park Street wa: Bangalore, Karnataka 560001'') =
   \<lparr>det_aadharNumber = Some ''198512345678'', det_name = None,
    dob = Some ''01/01/1985'', gender = Some ''Male'',
    address = Some ''12 Park Street, Bangalore, Karnataka 560001'',
    pin = Some ''560001''\<rparr>"
  by code_simp

end
